theory Spec2Isabelle
  imports Complex_Main "HOL-Library.AList"
begin

section \<open>Python values, exceptions and strings\<close>

text \<open>
  The exceptions the loader can meet. \<open>KeyboardInterrupt\<close> and \<open>SystemExit\<close> derive from
  \<open>BaseException\<close> only, so an \<open>except Exception\<close> clause does not catch them; every other
  constructor is a subclass of \<open>Exception\<close>. \<open>BrokenPipeError\<close> is kept apart from
  \<open>OSError\<close> because the result loop has a clause of its own for it.
\<close>

datatype exn =
    OSError
  | BrokenPipeError
  | KeyError
  | IndexError
  | ZeroDivisionError
  | ValueError
  | PyMongoError
  | KeyboardInterrupt
  | SystemExit int

fun is_Exception :: "exn \<Rightarrow> bool" where
  "is_Exception KeyboardInterrupt = False"
| "is_Exception (SystemExit c) = False"
| "is_Exception e = True"

text \<open>Python floats (timestamps, durations) are read as reals; no claim depends on rounding.\<close>

type_synonym pyfloat = real

text \<open>A dict from strings to strings, in insertion order; \<open>d[k] = v\<close> is \<open>AList.update k v d\<close>.\<close>

type_synonym pydict = "(string \<times> string) list"

datatype json =
    JNull
  | JBool bool
  | JNum pyfloat
  | JStr string
  | JArr "json list"
  | JObj "(string \<times> json) list"

text \<open>\<open>s.startswith(p)\<close>.\<close>

definition startswith :: "string \<Rightarrow> string \<Rightarrow> bool" where
  "startswith s p = (take (length p) s = p)"

text \<open>\<open>os.path.basename\<close> (posixpath): everything after the last slash.\<close>

definition basename :: "string \<Rightarrow> string" where
  "basename p = rev (takeWhile (\<lambda>c. c \<noteq> CHR ''/'') (rev p))"

text \<open>
  \<open>os.path.join(a, b)\<close> (posixpath) for two components: an absolute \<open>b\<close> replaces \<open>a\<close>;
  otherwise \<open>b\<close> is appended, after a slash unless \<open>a\<close> is empty or already ends in one.
\<close>

definition path_join :: "string \<Rightarrow> string \<Rightarrow> string" where
  "path_join a b =
     (if startswith b ''/'' then b
      else if a = [] \<or> last a = CHR ''/'' then a @ b
      else a @ ''/'' @ b)"

text \<open>\<open>s.split(c)\<close> for a one-character separator: the empty string gives one empty piece.\<close>

fun split_on :: "char \<Rightarrow> string \<Rightarrow> string list" where
  "split_on c [] = [[]]"
| "split_on c (x # xs) =
     (if x = c then [] # split_on c xs
      else (case split_on c xs of
              [] \<Rightarrow> [[x]]
            | y # ys \<Rightarrow> (x # y) # ys))"

text \<open>
  \<open>str.isspace\<close> on the code points below 256, which is all a \<open>char\<close> can hold:
  tab to carriage return, the four separators 28 to 31, space, NEL and no-break space.
\<close>

definition isspace :: "char \<Rightarrow> bool" where
  "isspace c = ((of_char c :: nat) \<in> {9, 10, 11, 12, 13, 28, 29, 30, 31, 32, 133, 160})"

text \<open>\<open>s.strip()\<close>.\<close>

definition strip :: "string \<Rightarrow> string" where
  "strip s = rev (dropWhile isspace (rev (dropWhile isspace s)))"

section \<open>Enumeration: \<open>gather_files\<close>\<close>

text \<open>
  A directory holds file names and named subdirectories. \<open>os.walk\<close> visits a directory
  before its subdirectories (top-down) and yields (root, dirs, files) each time; links to
  directories, which the walk lists but does not enter, are left out of the tree.
\<close>

datatype dirtree = Dir (dir_files: "string list") (dir_subdirs: "(string \<times> dirtree) list")

fun walk :: "string \<Rightarrow> dirtree \<Rightarrow> (string \<times> string list \<times> string list) list" where
  "walk dirpath (Dir fs ds) =
     (dirpath, map fst ds, fs) # concat (map (\<lambda>d. walk (path_join dirpath (fst d)) (snd d)) ds)"

text \<open>
  The two nested loops of \<open>gather_files\<close>: every file of every visited directory whose own
  name does not start with a dot is appended, joined to the directory it was found in.
\<close>

definition gather_files :: "string \<Rightarrow> dirtree \<Rightarrow> string list" where
  "gather_files directory tree =
     concat (map (\<lambda>(root, _, files).
                    map (path_join root) (filter (\<lambda>file. \<not> startswith file ''.'') files))
                 (walk directory tree))"

section \<open>Metadata extraction: \<open>process_file\<close>\<close>

record stat_result =
  st_size :: int
  st_ctime :: pyfloat
  st_mtime :: pyfloat
  st_atime :: pyfloat

text \<open>The dict returned by \<open>get_base_attributes\<close> (key \<open>size\<close> is \<open>size_attr\<close> here).\<close>

record base_attrs =
  size_attr :: int
  created :: pyfloat
  modified :: pyfloat
  accessed :: pyfloat

record completed_process =
  returncode :: int
  stdout :: string

text \<open>The value stored under \<open>extended_attributes\<close>.\<close>

record extended_attrs =
  mdls :: pydict
  xattr :: pydict

text \<open>
  The document dict. Its keys are the six below and no others, so the dict is a record of
  optional fields: \<open>None\<close> is an absent key. The empty dict is \<open>empty_doc\<close>.
\<close>

record document =
  file_path :: "string option"
  content_type :: "string option"
  base_attributes :: "base_attrs option"
  extended_attributes :: "extended_attrs option"
  video_metadata :: "json option"
  image_metadata :: "pydict option"

definition empty_doc :: document where
  "empty_doc = \<lparr>file_path = None, content_type = None, base_attributes = None,
                 extended_attributes = None, video_metadata = None, image_metadata = None\<rparr>"

text \<open>The \<open>timings\<close> dict: stage name to elapsed seconds.\<close>

type_synonym timings = "(string \<times> pyfloat) list"

text \<open>
  What one call of \<open>process_file\<close> meets outside itself: the content-type table, the file
  system, the four external programs, the JSON parser, and the differences of clock
  readings. Every call that can raise returns \<open>Inl\<close> of the exception.
\<close>

record extractor_world =
  guess_type :: "string \<Rightarrow> exn + string option"
  os_stat :: "string \<Rightarrow> exn + stat_result"
  run_mdls :: "string \<Rightarrow> exn + completed_process"
  run_xattr :: "string \<Rightarrow> exn + completed_process"
  run_identify :: "string \<Rightarrow> exn + completed_process"
  run_ffprobe :: "string \<Rightarrow> exn + completed_process"
  json_loads :: "string \<Rightarrow> exn + json"
  base_elapsed :: pyfloat
  mdls_elapsed :: pyfloat
  xattr_elapsed :: pyfloat
  image_elapsed :: pyfloat
  video_elapsed :: pyfloat
  total_elapsed :: pyfloat

definition get_base_attributes :: "extractor_world \<Rightarrow> string \<Rightarrow> exn + base_attrs" where
  "get_base_attributes w fp =
     (case os_stat w fp of
        Inl e \<Rightarrow> Inl e
      | Inr st \<Rightarrow> Inr \<lparr>size_attr = st_size st, created = st_ctime st,
                       modified = st_mtime st, accessed = st_atime st\<rparr>)"

text \<open>The loop over the lines of the \<open>mdls\<close> output: \<open>key = value\<close>, split at the first \<open>=\<close>.\<close>

definition mdls_line :: "pydict \<Rightarrow> string \<Rightarrow> pydict" where
  "mdls_line attrs line =
     (if CHR ''='' \<in> set line
      then AList.update (strip (takeWhile (\<lambda>c. c \<noteq> CHR ''='') line))
                        (strip (tl (dropWhile (\<lambda>c. c \<noteq> CHR ''='') line))) attrs
      else attrs)"

definition get_mdls_attributes :: "extractor_world \<Rightarrow> string \<Rightarrow> exn + (pydict \<times> pyfloat)" where
  "get_mdls_attributes w fp =
     (case run_mdls w fp of
        Inl e \<Rightarrow> if is_Exception e then Inr ([], mdls_elapsed w) else Inl e
      | Inr result \<Rightarrow>
          if returncode result = 0
          then Inr (foldl mdls_line [] (split_on (CHR 0x0A) (stdout result)), mdls_elapsed w)
          else Inr ([], mdls_elapsed w))"

definition get_xattr_attributes :: "extractor_world \<Rightarrow> string \<Rightarrow> exn + (pydict \<times> pyfloat)" where
  "get_xattr_attributes w fp =
     (case run_xattr w fp of
        Inl e \<Rightarrow> if is_Exception e then Inr ([], xattr_elapsed w) else Inl e
      | Inr result \<Rightarrow>
          if returncode result = 0
          then Inr ([(''xattr_data'', stdout result)], xattr_elapsed w)
          else Inr ([], xattr_elapsed w))"

definition get_image_metadata :: "extractor_world \<Rightarrow> string \<Rightarrow> exn + (pydict \<times> pyfloat)" where
  "get_image_metadata w fp =
     (case run_identify w fp of
        Inl e \<Rightarrow> if is_Exception e then Inr ([], image_elapsed w) else Inl e
      | Inr result \<Rightarrow>
          if returncode result = 0
          then Inr ([(''identify_data'', stdout result)], image_elapsed w)
          else Inr ([], image_elapsed w))"

definition get_video_metadata :: "extractor_world \<Rightarrow> string \<Rightarrow> exn + (json \<times> pyfloat)" where
  "get_video_metadata w fp =
     (case run_ffprobe w fp of
        Inl e \<Rightarrow> if is_Exception e then Inr (JObj [], video_elapsed w) else Inl e
      | Inr result \<Rightarrow>
          if returncode result = 0
          then (case json_loads w (stdout result) of
                  Inl e \<Rightarrow> if is_Exception e then Inr (JObj [], video_elapsed w) else Inl e
                | Inr v \<Rightarrow> Inr (v, video_elapsed w))
          else Inr (JObj [], video_elapsed w))"

text \<open>
  The first inner \<open>try\<close> block of \<open>process_file\<close>, up to the point where it ends or raises:
  the exception if any, and \<open>doc\<close> and \<open>timings\<close> as they are at that point. The stat call is
  an argument of \<open>doc.update\<close>, so when it raises nothing has been stored yet, and the two
  attribute probes behind it are not run.
\<close>

definition base_stage ::
  "extractor_world \<Rightarrow> string \<Rightarrow> string \<Rightarrow> exn option \<times> document \<times> timings" where
  "base_stage w fp ct =
     (case get_base_attributes w fp of
        Inl e \<Rightarrow> (Some e, empty_doc, [])
      | Inr base \<Rightarrow>
          let doc1 = empty_doc\<lparr>file_path := Some fp, content_type := Some ct,
                               base_attributes := Some base\<rparr>;
              timings1 = AList.update ''base'' (base_elapsed w) []
          in (case get_mdls_attributes w fp of
                Inl e \<Rightarrow> (Some e, doc1, timings1)
              | Inr (mdls_data, mdls_time) \<Rightarrow>
                  (case get_xattr_attributes w fp of
                     Inl e \<Rightarrow> (Some e, doc1, timings1)
                   | Inr (xattr_data, xattr_time) \<Rightarrow>
                       (None,
                        doc1\<lparr>extended_attributes :=
                               Some \<lparr>mdls = mdls_data, xattr = xattr_data\<rparr>\<rparr>,
                        AList.update ''xattr'' xattr_time
                          (AList.update ''mdls'' mdls_time timings1)))))"

text \<open>The media branch, with its own \<open>try\<close> around each probe.\<close>

definition media_stage ::
  "extractor_world \<Rightarrow> string \<Rightarrow> string \<Rightarrow> document \<Rightarrow> timings \<Rightarrow> exn + (document \<times> timings)" where
  "media_stage w fp ct doc tm =
     (if startswith ct ''video/'' then
        (case get_video_metadata w fp of
           Inl e \<Rightarrow> if is_Exception e then Inr (doc, AList.update ''video'' 0 tm) else Inl e
         | Inr (video_data, video_time) \<Rightarrow>
             Inr (doc\<lparr>video_metadata := Some video_data\<rparr>, AList.update ''video'' video_time tm))
      else if startswith ct ''image/'' then
        (case get_image_metadata w fp of
           Inl e \<Rightarrow> if is_Exception e then Inr (doc, AList.update ''image'' 0 tm) else Inl e
         | Inr (image_data, image_time) \<Rightarrow>
             Inr (doc\<lparr>image_metadata := Some image_data\<rparr>, AList.update ''image'' image_time tm))
      else Inr (doc, tm))"

text \<open>The triple \<open>process_file\<close> returns: the document or \<open>None\<close>, the duration, the timings.\<close>

type_synonym extraction = "document option \<times> pyfloat \<times> timings"

text \<open>
  The body of the outer \<open>try\<close>; \<open>not content_type\<close> holds for \<open>None\<close> and for the empty
  string. What the first inner block raises is caught there when it is an instance of
  \<open>Exception\<close>, and the media branch (\<open>rest\<close>) follows in either case.
\<close>

definition process_file_body :: "extractor_world \<Rightarrow> string \<Rightarrow> exn + extraction" where
  "process_file_body w fp =
     (if startswith (basename fp) ''.'' then Inr (None, 0, [])
      else
        (case guess_type w fp of
           Inl e \<Rightarrow> Inl e
         | Inr None \<Rightarrow> Inr (None, 0, [])
         | Inr (Some ct) \<Rightarrow>
             if ct = [] then Inr (None, 0, [])
             else
               (case base_stage w fp ct of
                  (raised, doc, tm) \<Rightarrow>
                    let rest =
                      (case media_stage w fp ct doc tm of
                         Inl e \<Rightarrow> Inl e
                       | Inr (doc', tm') \<Rightarrow> Inr (Some doc', total_elapsed w, tm'))
                    in (case raised of
                          None \<Rightarrow> rest
                        | Some e \<Rightarrow> if is_Exception e then rest else Inl e))))"

text \<open>
  \<open>process_file\<close>: the outer \<open>except Exception\<close> turns what the body raises into
  \<open>(None, elapsed, {})\<close>. The unused \<open>mongo_uri\<close> argument is left out.
\<close>

definition process_file :: "extractor_world \<Rightarrow> string \<Rightarrow> exn + extraction" where
  "process_file w fp =
     (case process_file_body w fp of
        Inl e \<Rightarrow> if is_Exception e then Inr (None, total_elapsed w, []) else Inl e
      | Inr r \<Rightarrow> Inr r)"

section \<open>The coordinator: \<open>main\<close>\<close>

text \<open>\<open>signal_handler\<close> is installed for these two signals when the module is loaded.\<close>

datatype signal = SIGTERM | SIGINT

text \<open>The handler prints one line to the error stream and calls \<open>sys.exit(0)\<close>.\<close>

definition signal_handler :: "signal \<Rightarrow> exn" where
  "signal_handler signum = SystemExit 0"

text \<open>
  What the coordinator meets while it folds one result or writes one batch:
  \<open>os.path.getsize\<close> (\<open>None\<close>: it raises \<open>OSError\<close>), whether a write to standard output
  goes through (\<open>False\<close>: \<open>print\<close> raises \<open>BrokenPipeError\<close>), whether the bulk write
  succeeds (\<open>False\<close>: \<open>insert_many\<close> raises), and two differences of clock readings.
  Writes to the error stream are taken not to raise.
\<close>

record coordinator_world =
  getsize :: "string \<Rightarrow> int option"
  stdout_open :: bool
  insert_ok :: bool
  insert_duration :: pyfloat
  elapsed_time :: pyfloat

text \<open>
  The lines printed to standard output, as the values interpolated into them (the number
  formatting is left out): the progress line of one result and the line of one committed
  batch, \<open>final\<close> telling the two wordings apart.
\<close>

datatype out_line =
    Progress (p_processed: int) (p_total: int) (p_percent: pyfloat) (p_file_size_mb: pyfloat)
             (p_duration: pyfloat) (p_timing_details: timings)
             (p_avg_processing_time: pyfloat) (p_overall_throughput: pyfloat)
  | Committed (c_final: bool) (c_documents: nat) (c_batch_size_mb: pyfloat)
              (c_insert_duration: pyfloat) (c_batch_rate: pyfloat)
              (c_processed: int) (c_total: int) (c_percent: pyfloat)

text \<open>
  The variables of \<open>main\<close> that the loop changes, the \<open>content\<close> collection of the store,
  the batches handed to \<open>insert_many\<close> so far (one entry per call, whether it succeeded
  or not), and standard output.
\<close>

record run_state =
  processed_count :: int
  total_processing_time :: pyfloat
  results_batch :: "document list"
  success_count :: int
  error_count :: int
  content :: "document list"
  insert_calls :: "document list list"
  console :: "out_line list"

definition BATCH_SIZE :: nat where
  "BATCH_SIZE = 20"

text \<open>Float division \<open>a / b\<close>.\<close>

definition truediv :: "pyfloat \<Rightarrow> pyfloat \<Rightarrow> exn + pyfloat" where
  "truediv a b = (if b = 0 then Inl ZeroDivisionError else Inr (a / b))"

text \<open>\<open>xs[i]\<close> with Python's negative indices.\<close>

definition py_index :: "'a list \<Rightarrow> int \<Rightarrow> exn + 'a" where
  "py_index xs i =
     (if 0 \<le> i \<and> i < int (length xs) then Inr (xs ! nat i)
      else if i < 0 \<and> - int (length xs) \<le> i then Inr (xs ! nat (int (length xs) + i))
      else Inl IndexError)"

text \<open>\<open>if result:\<close> holds for a dict that is not empty.\<close>

definition truthy :: "document option \<Rightarrow> bool" where
  "truthy r = (case r of None \<Rightarrow> False | Some d \<Rightarrow> d \<noteq> empty_doc)"

text \<open>
  The report of one result, before \<open>if result:\<close>. The size comes from the backlog entry at
  index \<open>processed_count - 1\<close>; the arguments are the values after the two increments.
\<close>

definition progress_report ::
  "coordinator_world \<Rightarrow> string list \<Rightarrow> int \<Rightarrow> pyfloat \<Rightarrow> pyfloat \<Rightarrow> timings \<Rightarrow> exn + out_line" where
  "progress_report cw all_files pc total_time duration tm =
     (let total_files = int (length all_files);
          overall_throughput = (if elapsed_time cw > 0 then of_int pc / elapsed_time cw else 0);
          avg_processing_time = (if pc > 0 then total_time / of_int pc else 0)
      in case py_index all_files (pc - 1) of
           Inl e \<Rightarrow> Inl e
         | Inr fp \<Rightarrow>
             (case getsize cw fp of
                None \<Rightarrow> Inl OSError
              | Some file_size \<Rightarrow>
                  (case truediv (of_int pc) (of_int total_files) of
                     Inl e \<Rightarrow> Inl e
                   | Inr ratio \<Rightarrow>
                       if stdout_open cw
                       then Inr (Progress pc total_files (ratio * 100)
                                   (of_int file_size / (1024 * 1024)) duration
                                   (filter (\<lambda>(op, t). t > 0) tm)
                                   avg_processing_time overall_throughput)
                       else Inl BrokenPipeError)))"

text \<open>\<open>sum(os.path.getsize(doc['file_path']) for doc in results_batch)\<close>.\<close>

fun batch_bytes :: "coordinator_world \<Rightarrow> document list \<Rightarrow> exn + int" where
  "batch_bytes cw [] = Inr 0"
| "batch_bytes cw (doc # docs) =
     (case file_path doc of
        None \<Rightarrow> Inl KeyError
      | Some fp \<Rightarrow>
          (case getsize cw fp of
             None \<Rightarrow> Inl OSError
           | Some n \<Rightarrow>
               (case batch_bytes cw docs of
                  Inl e \<Rightarrow> Inl e
                | Inr m \<Rightarrow> Inr (n + m))))"

text \<open>
  The body of the \<open>try\<close> around a bulk write, shared by the flush at the threshold and the
  flush of the remainder: the write, then the line that reports it. What it raises, if
  anything, and the state at that point. A write that raises leaves the collection as it
  was (the store takes a batch whole or not at all).
\<close>

definition commit_batch ::
  "bool \<Rightarrow> coordinator_world \<Rightarrow> int \<Rightarrow> run_state \<Rightarrow> exn option \<times> run_state" where
  "commit_batch final cw total_files s =
     (let batch = results_batch s;
          s1 = s\<lparr>insert_calls := insert_calls s @ [batch]\<rparr>
      in if \<not> insert_ok cw then (Some PyMongoError, s1)
         else
           let s2 = s1\<lparr>content := content s1 @ batch\<rparr>
           in case truediv (of_nat (length batch)) (insert_duration cw) of
                Inl e \<Rightarrow> (Some e, s2)
              | Inr batch_rate \<Rightarrow>
                  (case batch_bytes cw batch of
                     Inl e \<Rightarrow> (Some e, s2)
                   | Inr batch_size \<Rightarrow>
                       (case truediv (of_int (processed_count s2)) (of_int total_files) of
                          Inl e \<Rightarrow> (Some e, s2)
                        | Inr ratio \<Rightarrow>
                            if stdout_open cw
                            then (None,
                                  s2\<lparr>console := console s2 @
                                       [Committed final (length batch)
                                          (of_int batch_size / (1024 * 1024)) (insert_duration cw)
                                          batch_rate (processed_count s2) total_files
                                          (ratio * 100)]\<rparr>)
                            else (Some BrokenPipeError, s2))))"

text \<open>The \<open>except Exception\<close> clause of both flushes, up to the reset of the batch.\<close>

definition demote_batch :: "run_state \<Rightarrow> run_state" where
  "demote_batch s =
     s\<lparr>error_count := error_count s + int (length (results_batch s)),
       success_count := success_count s - int (length (results_batch s))\<rparr>"

text \<open>The flush inside the loop, run after every append.\<close>

definition flush_at_threshold :: "coordinator_world \<Rightarrow> int \<Rightarrow> run_state \<Rightarrow> run_state" where
  "flush_at_threshold cw total_files s =
     (if length (results_batch s) \<ge> BATCH_SIZE then
        (case commit_batch False cw total_files s of
           (None, s') \<Rightarrow> s'\<lparr>results_batch := []\<rparr>
         | (Some e, s') \<Rightarrow> (demote_batch s')\<lparr>results_batch := []\<rparr>)
      else s)"

text \<open>The flush after the loop; its \<open>except\<close> clause does not reset the batch.\<close>

definition flush_remaining :: "coordinator_world \<Rightarrow> int \<Rightarrow> run_state \<Rightarrow> run_state" where
  "flush_remaining cw total_files s =
     (if results_batch s \<noteq> [] then
        (case commit_batch True cw total_files s of
           (None, s') \<Rightarrow> s'
         | (Some e, s') \<Rightarrow> demote_batch s')
      else s)"

text \<open>
  One result as the pool hands it over: the triple, the backlog entry it was computed
  from (the triple itself does not say), and the coordinator's surroundings at that time.
\<close>

record arrival =
  a_path :: string
  a_result :: "document option"
  a_duration :: pyfloat
  a_timings :: timings
  a_world :: coordinator_world

text \<open>
  The body of the \<open>for\<close> loop. Every exception it can raise is an instance of
  \<open>Exception\<close>: the first clause takes \<open>BrokenPipeError\<close>, the second all others.
\<close>

definition fold_result :: "string list \<Rightarrow> arrival \<Rightarrow> run_state \<Rightarrow> run_state" where
  "fold_result all_files a s =
     (let s1 = s\<lparr>processed_count := processed_count s + 1,
                 total_processing_time := total_processing_time s + a_duration a\<rparr>
      in case progress_report (a_world a) all_files (processed_count s1)
                (total_processing_time s1) (a_duration a) (a_timings a) of
           Inl e \<Rightarrow>
             if e = BrokenPipeError then s1
             else s1\<lparr>error_count := error_count s1 + 1\<rparr>
         | Inr line \<Rightarrow>
             let s2 = s1\<lparr>console := console s1 @ [line]\<rparr>
             in if truthy (a_result a)
                then flush_at_threshold (a_world a) (int (length all_files))
                       (s2\<lparr>results_batch := results_batch s2 @ [the (a_result a)],
                           success_count := success_count s2 + 1\<rparr>)
                else s2\<lparr>error_count := error_count s2 + 1\<rparr>)"

text \<open>
  What happens while the coordinator waits on the pool: a result arrives, or one of the
  two handled signals is delivered and the handler raises in the coordinator.
\<close>

datatype event = Arrival arrival | Signal signal

text \<open>The \<open>for\<close> loop: it ends when the stream does, or with the exception that leaves it.\<close>

fun consume :: "string list \<Rightarrow> event list \<Rightarrow> run_state \<Rightarrow> exn option \<times> run_state" where
  "consume all_files [] s = (None, s)"
| "consume all_files (Arrival a # evs) s = consume all_files evs (fold_result all_files a s)"
| "consume all_files (Signal signum # evs) s = (Some (signal_handler signum), s)"

text \<open>
  The clauses around the loop: \<open>KeyboardInterrupt\<close> and \<open>Exception\<close> both end in
  \<open>sys.exit(1)\<close>; a \<open>SystemExit\<close> is caught by neither and leaves the program with its own
  code.
\<close>

fun exit_status_of :: "exn \<Rightarrow> int" where
  "exit_status_of KeyboardInterrupt = 1"
| "exit_status_of (SystemExit c) = c"
| "exit_status_of e = 1"

record run_result =
  exit_status :: int
  final :: run_state

definition initial_state :: "document list \<Rightarrow> run_state" where
  "initial_state store =
     \<lparr>processed_count = 0, total_processing_time = 0, results_batch = [],
      success_count = 0, error_count = 0, content = store, insert_calls = [],
      console = []\<rparr>"

text \<open>
  What the closing statistics meet: the wall-clock time of the run, by which the number of
  files is divided, and whether \<open>count_documents\<close> goes through. Both stand outside any
  \<open>try\<close>, so a division by zero or a store error there ends the program with status 1.
\<close>

record closing_world =
  total_duration :: pyfloat
  count_documents_ok :: bool

definition closing_status :: "closing_world \<Rightarrow> int \<Rightarrow> int" where
  "closing_status cl total_files =
     (case truediv (of_int total_files) (total_duration cl) of
        Inl e \<Rightarrow> 1
      | Inr rate \<Rightarrow> if count_documents_ok cl then 0 else 1)"

text \<open>
  \<open>main\<close>: the directory check, the optional truncation, the enumeration, the loop and, when
  the loop ends by itself, the flush of the remainder and the closing statistics.
  \<open>isdir\<close> is the answer of \<open>os.path.isdir\<close> for the root, \<open>trunc\<close> the \<open>--truncate\<close>
  flag, \<open>delete_ok\<close> whether the truncating \<open>delete_many\<close> goes through (it is called only
  with the flag, outside any \<open>try\<close>: when it raises, the program ends with status 1 before
  anything is enumerated), \<open>store\<close> the collection before the run, \<open>fw\<close> the surroundings
  of the last flush, \<open>cl\<close> those of the closing statistics.
\<close>

definition main ::
  "bool \<Rightarrow> bool \<Rightarrow> bool \<Rightarrow> string \<Rightarrow> dirtree \<Rightarrow> document list \<Rightarrow> event list
     \<Rightarrow> coordinator_world \<Rightarrow> closing_world \<Rightarrow> run_result" where
  "main isdir trunc delete_ok root_dir tree store evs fw cl =
     (if \<not> isdir then \<lparr>exit_status = 1, final = initial_state store\<rparr>
      else if trunc \<and> \<not> delete_ok then \<lparr>exit_status = 1, final = initial_state store\<rparr>
      else
        let all_files = gather_files root_dir tree;
            s0 = initial_state (if trunc then [] else store)
        in case consume all_files evs s0 of
             (Some e, s) \<Rightarrow> \<lparr>exit_status = exit_status_of e, final = s\<rparr>
           | (None, s) \<Rightarrow>
               \<lparr>exit_status = closing_status cl (int (length all_files)),
                final = flush_remaining fw (int (length all_files)) s\<rparr>)"

section \<open>Notions used to state the properties\<close>

text \<open>\<open>file_at tree p f\<close>: the directory reached from \<open>tree\<close> along the names \<open>p\<close> holds a file \<open>f\<close>.\<close>

fun file_at :: "dirtree \<Rightarrow> string list \<Rightarrow> string \<Rightarrow> bool" where
  "file_at (Dir fs ds) [] f = (f \<in> set fs)"
| "file_at (Dir fs ds) (d # p) f = list_ex (\<lambda>(d', t). d' = d \<and> file_at t p f) ds"

text \<open>No file name in the tree contains a slash, as in every real directory.\<close>

fun slash_free :: "dirtree \<Rightarrow> bool" where
  "slash_free (Dir fs ds) =
     (list_all (\<lambda>f. CHR ''/'' \<notin> set f) fs \<and> list_all (\<lambda>d. slash_free (snd d)) ds)"

text \<open>A call raises, if at all, an instance of \<open>Exception\<close>.\<close>

definition only_Exception :: "exn + 'a \<Rightarrow> bool" where
  "only_Exception r = (case r of Inl e \<Rightarrow> is_Exception e | Inr v \<Rightarrow> True)"

text \<open>The four external programs and the JSON parser raise only instances of \<open>Exception\<close>.\<close>

definition probes_raise_only_Exception :: "extractor_world \<Rightarrow> string \<Rightarrow> bool" where
  "probes_raise_only_Exception w fp =
     (only_Exception (run_mdls w fp) \<and> only_Exception (run_xattr w fp) \<and>
      only_Exception (run_identify w fp) \<and> only_Exception (run_ffprobe w fp) \<and>
      (\<forall>s. only_Exception (json_loads w s)))"


text \<open>An external program failed: it could not be run, or it ended with a non-zero code.\<close>

definition probe_failed :: "exn + completed_process \<Rightarrow> bool" where
  "probe_failed r = (case r of Inl e \<Rightarrow> True | Inr result \<Rightarrow> returncode result \<noteq> 0)"

text \<open>The video probe failed: as above, or its output is not JSON.\<close>

definition video_probe_failed :: "extractor_world \<Rightarrow> string \<Rightarrow> bool" where
  "video_probe_failed w fp =
     (case run_ffprobe w fp of
        Inl e \<Rightarrow> True
      | Inr result \<Rightarrow> returncode result \<noteq> 0 \<or> isl (json_loads w (stdout result)))"

text \<open>
  A world for examples: the type table answers \<open>ct\<close>, \<open>os.stat\<close> answers \<open>st\<close>, and every
  probe fails, each in its own way.
\<close>

definition probes_down :: "string option \<Rightarrow> exn + stat_result \<Rightarrow> extractor_world" where
  "probes_down ct st =
     \<lparr>guess_type = (\<lambda>_. Inr ct), os_stat = (\<lambda>_. st),
      run_mdls = (\<lambda>_. Inl OSError),
      run_xattr = (\<lambda>_. Inr \<lparr>returncode = 1, stdout = []\<rparr>),
      run_identify = (\<lambda>_. Inl OSError),
      run_ffprobe = (\<lambda>_. Inr \<lparr>returncode = 0, stdout = ''garbage''\<rparr>),
      json_loads = (\<lambda>_. Inl ValueError),
      base_elapsed = 0, mdls_elapsed = 0, xattr_elapsed = 0, image_elapsed = 0,
      video_elapsed = 0, total_elapsed = 0\<rparr>"

text \<open>
  The progress line of a result is printed: the backlog has an entry at the index
  \<open>pc - 1\<close>, its size can be read, and standard output takes the line. \<open>pc\<close> is the
  count after the increment.
\<close>

definition reported :: "string list \<Rightarrow> int \<Rightarrow> coordinator_world \<Rightarrow> bool" where
  "reported all_files pc cw =
     (case py_index all_files (pc - 1) of
        Inl e \<Rightarrow> False
      | Inr fp \<Rightarrow> getsize cw fp \<noteq> None \<and> stdout_open cw)"

text \<open>
  The documents appended to the batch while the loop folds the results \<open>as\<close>, starting with
  \<open>processed_count = pc\<close>: those of the results that are truthy and whose progress line
  was printed.
\<close>

fun appended :: "string list \<Rightarrow> int \<Rightarrow> arrival list \<Rightarrow> document list" where
  "appended fs pc [] = []"
| "appended fs pc (a # as) =
     (if reported fs (pc + 1) (a_world a) \<and> truthy (a_result a) then [the (a_result a)] else [])
     @ appended fs (pc + 1) as"

text \<open>The sizes shown by the progress lines printed so far, in order.\<close>

definition reported_sizes :: "run_state \<Rightarrow> pyfloat list" where
  "reported_sizes s = map p_file_size_mb (filter is_Progress (console s))"

text \<open>Closing statistics that go through.\<close>

definition closing_fine :: closing_world where
  "closing_fine = \<lparr>total_duration = 60, count_documents_ok = True\<rparr>"

text \<open>Surroundings for examples: every file has one MiB, nothing fails.\<close>

definition quiet :: coordinator_world where
  "quiet = \<lparr>getsize = (\<lambda>_. Some 1048576), stdout_open = True, insert_ok = True,
            insert_duration = 1, elapsed_time = 1\<rparr>"

text \<open>The size in MiB that a progress line shows when it reads the size of \<open>fp\<close>.\<close>

definition size_shown :: "coordinator_world \<Rightarrow> string \<Rightarrow> pyfloat" where
  "size_shown cw fp = of_int (the (getsize cw fp)) / (1024 * 1024)"

text \<open>
  An example tree: twenty-one pictures, a file of unknown type and a hidden file in one
  directory; the document and the result of a picture; the result of a skipped file.
\<close>

definition example_names :: "string list" where
  "example_names =
     [''p01.jpg'', ''p02.jpg'', ''p03.jpg'', ''p04.jpg'', ''p05.jpg'', ''p06.jpg'', ''p07.jpg'',
      ''p08.jpg'', ''p09.jpg'', ''p10.jpg'', ''p11.jpg'', ''p12.jpg'', ''p13.jpg'', ''p14.jpg'',
      ''p15.jpg'', ''p16.jpg'', ''p17.jpg'', ''p18.jpg'', ''p19.jpg'', ''p20.jpg'', ''p21.jpg'']"

definition example_tree :: dirtree where
  "example_tree = Dir (example_names @ [''notes.xyz'', ''.DS_Store'']) []"

definition photo :: "string \<Rightarrow> document" where
  "photo p = \<lparr>file_path = Some p, content_type = Some ''image/jpeg'',
              base_attributes = Some \<lparr>size_attr = 1048576, created = 0, modified = 0, accessed = 0\<rparr>,
              extended_attributes = Some \<lparr>mdls = [], xattr = []\<rparr>,
              video_metadata = None, image_metadata = Some []\<rparr>"

definition photo_arrival :: "string \<Rightarrow> arrival" where
  "photo_arrival p = \<lparr>a_path = p, a_result = Some (photo p), a_duration = 1, a_timings = [],
                      a_world = quiet\<rparr>"

definition skip_arrival :: "string \<Rightarrow> arrival" where
  "skip_arrival p = \<lparr>a_path = p, a_result = None, a_duration = 0, a_timings = [],
                     a_world = quiet\<rparr>"

text \<open>A state with a batch of twenty documents waiting.\<close>

definition full_batch :: run_state where
  "full_batch = (initial_state [])\<lparr>processed_count := 20, success_count := 20,
                   results_batch := map (\<lambda>n. photo (path_join ''/data'' n)) (take 20 example_names)\<rparr>"

text \<open>Two result streams over the example tree.\<close>

definition photos_then_skip :: "arrival list" where
  "photos_then_skip =
     map (\<lambda>n. photo_arrival (path_join ''/data'' n)) example_names @
     [skip_arrival ''/data/notes.xyz'']"

definition fifteen_photos :: "arrival list" where
  "fifteen_photos = map (\<lambda>n. photo_arrival (path_join ''/data'' n)) (take 15 example_names)"

text \<open>
  Two files of one and two MiB whose results arrive in the opposite order of the backlog.
\<close>

definition two_sizes :: coordinator_world where
  "two_sizes = quiet\<lparr>getsize := (\<lambda>p. if p = ''/data/a.jpg'' then Some 1048576
                                      else if p = ''/data/b.jpg'' then Some 2097152 else None)\<rparr>"

definition b_then_a :: "arrival list" where
  "b_then_a =
     [\<lparr>a_path = ''/data/b.jpg'', a_result = Some (photo ''/data/b.jpg''), a_duration = 1,
       a_timings = [], a_world = two_sizes\<rparr>,
      \<lparr>a_path = ''/data/a.jpg'', a_result = Some (photo ''/data/a.jpg''), a_duration = 3,
       a_timings = [], a_world = two_sizes\<rparr>]"

section \<open>Enumeration\<close>

lemma gather_files_Dir:
  "gather_files r (Dir fs ds) =
     map (path_join r) (filter (\<lambda>file. \<not> startswith file ''.'') fs) @
     concat (map (\<lambda>d. gather_files (path_join r (fst d)) (snd d)) ds)"
proof -
  have "concat (concat (map (\<lambda>d. map g (walk (path_join r (fst d)) (snd d))) ds)) =
        concat (map (\<lambda>d. concat (map g (walk (path_join r (fst d)) (snd d)))) ds)"
    for g :: "string \<times> string list \<times> string list \<Rightarrow> string list"
    by (induction ds) simp_all
  then show ?thesis
    by (simp add: gather_files_def map_concat comp_def)
qed

lemma gather_files_sub:
  "(d, t) \<in> set ds \<Longrightarrow>
     set (gather_files (path_join r d) t) \<subseteq> set (gather_files r (Dir fs ds))"
  by (force simp: gather_files_Dir)

lemma file_at_gathered:
  "file_at tree p f \<Longrightarrow> \<not> startswith f ''.'' \<Longrightarrow>
     path_join (foldl path_join r p) f \<in> set (gather_files r tree)"
proof (induction p arbitrary: r tree)
  case Nil
  then show ?case by (cases tree) (simp add: gather_files_Dir)
next
  case (Cons d p)
  obtain fs ds where tree: "tree = Dir fs ds" by (cases tree)
  from Cons.prems(1) tree obtain t where t: "(d, t) \<in> set ds" "file_at t p f"
    by (auto simp: list_ex_iff)
  from Cons.IH[OF t(2) Cons.prems(2)]
  have "path_join (foldl path_join (path_join r d) p) f \<in> set (gather_files (path_join r d) t)" .
  with gather_files_sub[OF t(1)] tree show ?case by auto
qed

lemma takeWhile_no_slash:
  "CHR ''/'' \<notin> set f \<Longrightarrow>
     takeWhile (\<lambda>c. c \<noteq> CHR ''/'') (rev f @ CHR ''/'' # xs) = rev f"
  "CHR ''/'' \<notin> set f \<Longrightarrow> takeWhile (\<lambda>c. c \<noteq> CHR ''/'') (rev f) = rev f"
  by (induction f rule: rev_induct) auto

lemma basename_path_join:
  assumes "CHR ''/'' \<notin> set f"
  shows "basename (path_join r f) = f"
proof -
  have "\<not> startswith f ''/''" using assms by (cases f) (auto simp: startswith_def)
  then show ?thesis using assms
    by (cases r rule: rev_cases) (auto simp: basename_def path_join_def takeWhile_no_slash)
qed

lemma gathered_file_at:
  "q \<in> set (gather_files r tree) \<Longrightarrow>
     \<exists>p f. file_at tree p f \<and> \<not> startswith f ''.'' \<and> q = path_join (foldl path_join r p) f"
proof (induction tree arbitrary: r)
  case (Dir fs ds)
  from Dir.prems consider
      (here) "q \<in> set (map (path_join r) (filter (\<lambda>file. \<not> startswith file ''.'') fs))"
    | (below) d where "d \<in> set ds" "q \<in> set (gather_files (path_join r (fst d)) (snd d))"
    by (auto simp: gather_files_Dir)
  then show ?case
  proof cases
    case here
    then obtain f where "f \<in> set fs" "\<not> startswith f ''.''" "q = path_join r f" by auto
    then have "file_at (Dir fs ds) [] f \<and> \<not> startswith f ''.'' \<and>
               q = path_join (foldl path_join r []) f"
      by simp
    then show ?thesis by blast
  next
    case below
    have "snd d \<in> Basic_BNFs.snds d" by (cases d) simp
    from Dir.IH[OF below(1) this below(2)] obtain p f where
      pf: "file_at (snd d) p f" "\<not> startswith f ''.''"
          "q = path_join (foldl path_join (path_join r (fst d)) p) f"
      by blast
    from below(1) pf(1) have "file_at (Dir fs ds) (fst d # p) f"
      by (cases d) (auto simp: list_ex_iff)
    with pf(2,3) have "file_at (Dir fs ds) (fst d # p) f \<and> \<not> startswith f ''.'' \<and>
               q = path_join (foldl path_join r (fst d # p)) f"
      by simp
    then show ?thesis by blast
  qed
qed

lemma file_at_slash_free:
  "slash_free tree \<Longrightarrow> file_at tree p f \<Longrightarrow> CHR ''/'' \<notin> set f"
proof (induction p arbitrary: tree)
  case Nil
  then show ?case by (cases tree) (auto simp: list_all_iff)
next
  case (Cons d p)
  obtain fs ds where tree: "tree = Dir fs ds" by (cases tree)
  from Cons.prems(2) tree obtain t where t: "(d, t) \<in> set ds" "file_at t p f"
    by (auto simp: list_ex_iff)
  from Cons.prems(1) tree t(1) have "slash_free t"
    by (auto simp: list_all_iff)
  from Cons.IH[OF this t(2)] show ?case .
qed

lemma gather_files_basenames:
  assumes "slash_free tree" and "q \<in> set (gather_files r tree)"
  shows "\<not> startswith (basename q) ''.''"
proof -
  from gathered_file_at[OF assms(2)] obtain p f where
    pf: "file_at tree p f" "\<not> startswith f ''.''" "q = path_join (foldl path_join r p) f"
    by blast
  from file_at_slash_free[OF assms(1) pf(1)] have "CHR ''/'' \<notin> set f" .
  from basename_path_join[OF this] pf(2,3) show ?thesis by simp
qed

text \<open>
  C10: the backlog holds exactly the files of the tree whose own name does not begin with
  a dot, each joined to the directory it lies in. Such a file is in the backlog wherever it
  lies, also below directories whose names begin with a dot (the names in \<open>p\<close> are
  arbitrary: the walk prunes nothing), and the hidden-file test of \<open>process_file\<close>, which
  looks at the last component only, lets its entry through. A file whose own name begins
  with a dot gives no entry: with names free of slashes, no entry of the backlog has a
  last component that begins with a dot.
\<close>

theorem hidden_directories_are_walked:
  "(q \<in> set (gather_files r tree) \<longleftrightarrow>
      (\<exists>p f. file_at tree p f \<and> \<not> startswith f ''.'' \<and>
             q = path_join (foldl path_join r p) f)) \<and>
   (file_at tree p f \<and> \<not> startswith f ''.'' \<longrightarrow>
      path_join (foldl path_join r p) f \<in> set (gather_files r tree)) \<and>
   (file_at tree p f \<and> \<not> startswith f ''.'' \<and> CHR ''/'' \<notin> set f \<longrightarrow>
      \<not> startswith (basename (path_join (foldl path_join r p) f)) ''.'') \<and>
   (slash_free tree \<longrightarrow>
      (\<forall>e \<in> set (gather_files r tree). \<not> startswith (basename e) ''.''))"
  using gathered_file_at[of q r tree] file_at_gathered[of tree _ _ r]
    basename_path_join[of f "foldl path_join r p"] gather_files_basenames[of tree _ r]
  by auto

theorem hidden_directories_are_walked_witness:
  "file_at (Dir [''a.jpg'', ''.DS_Store''] [(''.cache'', Dir [''b.mp4'', ''.lock''] [])])
     [''.cache''] ''b.mp4'' \<and>
   \<not> startswith ''b.mp4'' ''.'' \<and> CHR ''/'' \<notin> set ''b.mp4'' \<and>
   slash_free (Dir [''a.jpg'', ''.DS_Store''] [(''.cache'', Dir [''b.mp4'', ''.lock''] [])]) \<and>
   ''/data/.cache/b.mp4'' \<in>
      set (gather_files ''/data''
             (Dir [''a.jpg'', ''.DS_Store''] [(''.cache'', Dir [''b.mp4'', ''.lock''] [])])) \<and>
   \<not> startswith (basename ''/data/.cache/b.mp4'') ''.'' \<and>
   gather_files ''/data''
     (Dir [''a.jpg'', ''.DS_Store''] [(''.cache'', Dir [''b.mp4'', ''.lock''] [])]) =
     [''/data/a.jpg'', ''/data/.cache/b.mp4''] \<and>
   ''/data/.DS_Store'' \<notin>
      set (gather_files ''/data''
             (Dir [''a.jpg'', ''.DS_Store''] [(''.cache'', Dir [''b.mp4'', ''.lock''] [])])) \<and>
   ''/data/.cache/.lock'' \<notin>
      set (gather_files ''/data''
             (Dir [''a.jpg'', ''.DS_Store''] [(''.cache'', Dir [''b.mp4'', ''.lock''] [])]))"
  using hidden_directories_are_walked
          [of "''/data/.cache/b.mp4''" "''/data''"
              "Dir [''a.jpg'', ''.DS_Store''] [(''.cache'', Dir [''b.mp4'', ''.lock''] [])]"
              "[''.cache'']" "''b.mp4''"]
  by (simp add: startswith_def path_join_def gather_files_def basename_def)

section \<open>Extraction\<close>

lemma get_mdls_attributes_total:
  assumes "only_Exception (run_mdls w fp)"
  shows "\<exists>d. get_mdls_attributes w fp = Inr (d, mdls_elapsed w) \<and> (probe_failed (run_mdls w fp) \<longrightarrow> d = [])"
  using assms by (auto simp: get_mdls_attributes_def only_Exception_def probe_failed_def split: sum.splits)

lemma get_xattr_attributes_total:
  assumes "only_Exception (run_xattr w fp)"
  shows "\<exists>d. get_xattr_attributes w fp = Inr (d, xattr_elapsed w) \<and> (probe_failed (run_xattr w fp) \<longrightarrow> d = [])"
  using assms by (auto simp: get_xattr_attributes_def only_Exception_def probe_failed_def split: sum.splits)

lemma get_image_metadata_total:
  assumes "only_Exception (run_identify w fp)"
  shows "\<exists>d. get_image_metadata w fp = Inr (d, image_elapsed w) \<and> (probe_failed (run_identify w fp) \<longrightarrow> d = [])"
  using assms by (auto simp: get_image_metadata_def only_Exception_def probe_failed_def split: sum.splits)

lemma get_video_metadata_total:
  assumes "only_Exception (run_ffprobe w fp)" "\<forall>s. only_Exception (json_loads w s)"
  shows "\<exists>d. get_video_metadata w fp = Inr (d, video_elapsed w) \<and> (video_probe_failed w fp \<longrightarrow> d = JObj [])"
proof (cases "run_ffprobe w fp")
  case (Inl e)
  with assms(1) show ?thesis
    by (simp add: get_video_metadata_def only_Exception_def)
next
  case (Inr result)
  show ?thesis
  proof (cases "json_loads w (stdout result)")
    case (Inl e)
    with assms(2)[rule_format, of "stdout result"] have "is_Exception e"
      by (simp add: only_Exception_def)
    with Inl Inr show ?thesis
      by (simp add: get_video_metadata_def)
  next
    case r: (Inr v)
    with Inr show ?thesis
      by (simp add: get_video_metadata_def video_probe_failed_def)
  qed
qed

lemma base_stage_stat_ok:
  assumes "os_stat w fp = Inr st" "only_Exception (run_mdls w fp)" "only_Exception (run_xattr w fp)"
  shows "\<exists>m x tm. base_stage w fp ct =
           (None,
            \<lparr>file_path = Some fp, content_type = Some ct,
             base_attributes = Some \<lparr>size_attr = st_size st, created = st_ctime st,
                                      modified = st_mtime st, accessed = st_atime st\<rparr>,
             extended_attributes = Some \<lparr>mdls = m, xattr = x\<rparr>,
             video_metadata = None, image_metadata = None\<rparr>, tm) \<and>
           (probe_failed (run_mdls w fp) \<longrightarrow> m = []) \<and>
           (probe_failed (run_xattr w fp) \<longrightarrow> x = [])"
proof -
  from get_mdls_attributes_total[OF assms(2)] obtain m where
    m: "get_mdls_attributes w fp = Inr (m, mdls_elapsed w)" "probe_failed (run_mdls w fp) \<longrightarrow> m = []"
    by blast
  from get_xattr_attributes_total[OF assms(3)] obtain x where
    x: "get_xattr_attributes w fp = Inr (x, xattr_elapsed w)" "probe_failed (run_xattr w fp) \<longrightarrow> x = []"
    by blast
  show ?thesis
    using m x assms(1) by (simp add: base_stage_def get_base_attributes_def empty_doc_def)
qed


lemma media_stage_total:
  assumes "probes_raise_only_Exception w fp"
  shows "\<exists>v i tm'. media_stage w fp ct doc tm =
            Inr (doc\<lparr>video_metadata := v, image_metadata := i\<rparr>, tm') \<and>
          v = (if startswith ct ''video/'' then v else video_metadata doc) \<and>
          i = (if \<not> startswith ct ''video/'' \<and> startswith ct ''image/'' then i else image_metadata doc) \<and>
          (startswith ct ''video/'' \<longrightarrow> v \<noteq> None \<and> (video_probe_failed w fp \<longrightarrow> v = Some (JObj []))) \<and>
          (\<not> startswith ct ''video/'' \<and> startswith ct ''image/'' \<longrightarrow>
             i \<noteq> None \<and> (probe_failed (run_identify w fp) \<longrightarrow> i = Some []))"
proof -
  from assms have a: "only_Exception (run_identify w fp)" "only_Exception (run_ffprobe w fp)"
    "\<forall>s. only_Exception (json_loads w s)"
    by (simp_all add: probes_raise_only_Exception_def)
  from get_video_metadata_total[OF a(2,3)] obtain vd where
    vd: "get_video_metadata w fp = Inr (vd, video_elapsed w)" "video_probe_failed w fp \<longrightarrow> vd = JObj []"
    by blast
  from get_image_metadata_total[OF a(1)] obtain im where
    im: "get_image_metadata w fp = Inr (im, image_elapsed w)" "probe_failed (run_identify w fp) \<longrightarrow> im = []"
    by blast
  show ?thesis
    using vd im by (auto simp: media_stage_def)
qed

lemma process_file_skips:
  assumes "startswith (basename fp) ''.'' \<or> guess_type w fp = Inr None \<or> guess_type w fp = Inr (Some [])"
  shows "process_file w fp = Inr (None, 0, [])"
  using assms by (auto simp: process_file_def process_file_body_def)

text \<open>
  C6: once the file has passed the two filters (its name is not hidden, a content type is
  found) and \<open>os.stat\<close> succeeds, \<open>process_file\<close> returns a document, whatever the probes
  do: it is a non-empty dict, so the coordinator counts it as a success, it holds the path,
  the type and the base attributes, and every probe that failed has left an empty map.
\<close>

theorem process_file_degrades:
  assumes "\<not> startswith (basename fp) ''.''"
    and "guess_type w fp = Inr (Some ct)" and "ct \<noteq> []"
    and "os_stat w fp = Inr st"
    and "probes_raise_only_Exception w fp"
  shows "\<exists>doc tm. process_file w fp = Inr (Some doc, total_elapsed w, tm) \<and>
           truthy (Some doc) \<and>
           file_path doc = Some fp \<and> content_type doc = Some ct \<and>
           base_attributes doc = Some \<lparr>size_attr = st_size st, created = st_ctime st,
                                        modified = st_mtime st, accessed = st_atime st\<rparr> \<and>
           (\<exists>ext. extended_attributes doc = Some ext \<and>
                  (probe_failed (run_mdls w fp) \<longrightarrow> mdls ext = []) \<and>
                  (probe_failed (run_xattr w fp) \<longrightarrow> xattr ext = [])) \<and>
           (startswith ct ''video/'' \<and> video_probe_failed w fp \<longrightarrow>
              video_metadata doc = Some (JObj [])) \<and>
           (\<not> startswith ct ''video/'' \<and> startswith ct ''image/'' \<and>
              probe_failed (run_identify w fp) \<longrightarrow> image_metadata doc = Some [])"
proof -
  from assms(5) have p: "only_Exception (run_mdls w fp)" "only_Exception (run_xattr w fp)"
    by (simp_all add: probes_raise_only_Exception_def)
  from base_stage_stat_ok[OF assms(4) p, of ct] obtain m x tm where
    b: "base_stage w fp ct =
           (None,
            \<lparr>file_path = Some fp, content_type = Some ct,
             base_attributes = Some \<lparr>size_attr = st_size st, created = st_ctime st,
                                      modified = st_mtime st, accessed = st_atime st\<rparr>,
             extended_attributes = Some \<lparr>mdls = m, xattr = x\<rparr>,
             video_metadata = None, image_metadata = None\<rparr>, tm)"
       "probe_failed (run_mdls w fp) \<longrightarrow> m = []" "probe_failed (run_xattr w fp) \<longrightarrow> x = []"
    by blast
  let ?d = "\<lparr>file_path = Some fp, content_type = Some ct,
             base_attributes = Some \<lparr>size_attr = st_size st, created = st_ctime st,
                                      modified = st_mtime st, accessed = st_atime st\<rparr>,
             extended_attributes = Some \<lparr>mdls = m, xattr = x\<rparr>,
             video_metadata = None, image_metadata = None\<rparr>"
  from media_stage_total[OF assms(5), of ct ?d tm] obtain v i tm' where
    md: "media_stage w fp ct ?d tm = Inr (?d\<lparr>video_metadata := v, image_metadata := i\<rparr>, tm')"
        "startswith ct ''video/'' \<longrightarrow> v \<noteq> None \<and> (video_probe_failed w fp \<longrightarrow> v = Some (JObj []))"
        "\<not> startswith ct ''video/'' \<and> startswith ct ''image/'' \<longrightarrow>
             i \<noteq> None \<and> (probe_failed (run_identify w fp) \<longrightarrow> i = Some [])"
    by blast
  have "process_file w fp = Inr (Some (?d\<lparr>video_metadata := v, image_metadata := i\<rparr>), total_elapsed w, tm')"
    using assms(1,2,3) b(1) md(1) by (simp add: process_file_def process_file_body_def)
  then show ?thesis
    using b(2,3) md(2,3) by (simp add: truthy_def empty_doc_def)
qed

theorem process_file_degrades_witness:
  "\<not> startswith (basename ''/data/a.mp4'') ''.'' \<and>
   guess_type (probes_down (Some ''video/mp4'')
      (Inr \<lparr>st_size = 7, st_ctime = 1, st_mtime = 2, st_atime = 3\<rparr>)) ''/data/a.mp4'' =
     Inr (Some ''video/mp4'') \<and>
   ''video/mp4'' \<noteq> [] \<and>
   os_stat (probes_down (Some ''video/mp4'')
      (Inr \<lparr>st_size = 7, st_ctime = 1, st_mtime = 2, st_atime = 3\<rparr>)) ''/data/a.mp4'' =
     Inr \<lparr>st_size = 7, st_ctime = 1, st_mtime = 2, st_atime = 3\<rparr> \<and>
   probes_raise_only_Exception (probes_down (Some ''video/mp4'')
      (Inr \<lparr>st_size = 7, st_ctime = 1, st_mtime = 2, st_atime = 3\<rparr>)) ''/data/a.mp4'' \<and>
   process_file (probes_down (Some ''video/mp4'')
      (Inr \<lparr>st_size = 7, st_ctime = 1, st_mtime = 2, st_atime = 3\<rparr>)) ''/data/a.mp4'' =
     Inr (Some \<lparr>file_path = Some ''/data/a.mp4'', content_type = Some ''video/mp4'',
                 base_attributes =
                   Some \<lparr>size_attr = 7, created = 1, modified = 2, accessed = 3\<rparr>,
                 extended_attributes = Some \<lparr>mdls = [], xattr = []\<rparr>,
                 video_metadata = Some (JObj []), image_metadata = None\<rparr>,
          0, [(''base'', 0), (''mdls'', 0), (''xattr'', 0), (''video'', 0)])"
  using process_file_degrades [of "''/data/a.mp4''"
      "probes_down (Some ''video/mp4'')
         (Inr \<lparr>st_size = 7, st_ctime = 1, st_mtime = 2, st_atime = 3\<rparr>)"
      "''video/mp4''" "\<lparr>st_size = 7, st_ctime = 1, st_mtime = 2, st_atime = 3\<rparr>"]
  apply (simp add: probes_raise_only_Exception_def only_Exception_def probes_down_def
           basename_def startswith_def probe_failed_def video_probe_failed_def)
  apply (simp add: process_file_def process_file_body_def base_stage_def media_stage_def
           get_base_attributes_def get_mdls_attributes_def get_xattr_attributes_def
           get_video_metadata_def empty_doc_def startswith_def basename_def)
  done







section \<open>The result loop and the flushes\<close>

lemma py_index_Inr: "py_index xs i = Inr x \<Longrightarrow> xs \<noteq> []"
  by (auto simp: py_index_def Let_def split: if_splits)

lemma progress_report_reported:
  "reported fs pc cw \<Longrightarrow> \<exists>line. progress_report cw fs pc tt d tm = Inr line"
  by (auto simp: reported_def progress_report_def truediv_def Let_def dest: py_index_Inr split: sum.splits option.splits)

lemma progress_report_not_reported:
  "\<not> reported fs pc cw \<Longrightarrow> \<exists>e. progress_report cw fs pc tt d tm = Inl e"
  by (auto simp: reported_def progress_report_def truediv_def Let_def split: sum.splits option.splits)

lemma progress_report_BrokenPipe:
  "progress_report cw fs pc tt d tm = Inl BrokenPipeError \<Longrightarrow> \<not> stdout_open cw"
  by (auto simp: progress_report_def truediv_def py_index_def Let_def split: sum.splits option.splits if_splits)

lemma commit_batch_fields:
  assumes "commit_batch fin cw n s = (r, s')"
  shows "processed_count s' = processed_count s" "success_count s' = success_count s"
    "error_count s' = error_count s" "results_batch s' = results_batch s"
    "total_processing_time s' = total_processing_time s"
    "insert_calls s' = insert_calls s @ [results_batch s]"
    "content s' = (if insert_ok cw then content s @ results_batch s else content s)"
  using assms
  by (auto simp: commit_batch_def Let_def split: if_splits sum.splits)

lemma commit_batch_fails:
  "\<not> insert_ok cw \<Longrightarrow> \<exists>s'. commit_batch fin cw n s = (Some PyMongoError, s')"
  by (simp add: commit_batch_def Let_def)

lemma flush_at_threshold_below:
  "length (results_batch s) < BATCH_SIZE \<Longrightarrow> flush_at_threshold cw n s = s"
  by (simp add: flush_at_threshold_def)

lemma flush_at_threshold_fields:
  assumes "length (results_batch s) \<ge> BATCH_SIZE"
  shows "processed_count (flush_at_threshold cw n s) = processed_count s"
    "results_batch (flush_at_threshold cw n s) = []"
    "insert_calls (flush_at_threshold cw n s) = insert_calls s @ [results_batch s]"
    "content (flush_at_threshold cw n s) =
       (if insert_ok cw then content s @ results_batch s else content s)"
    "success_count (flush_at_threshold cw n s) + error_count (flush_at_threshold cw n s) =
       success_count s + error_count s"
proof -
  obtain r s' where c: "commit_batch False cw n s = (r, s')"
    by (cases "commit_batch False cw n s")
  note f = commit_batch_fields[OF c]
  from assms c f show "processed_count (flush_at_threshold cw n s) = processed_count s"
    by (cases r) (simp_all add: flush_at_threshold_def demote_batch_def)
  from assms c f show "results_batch (flush_at_threshold cw n s) = []"
    by (cases r) (simp_all add: flush_at_threshold_def demote_batch_def)
  from assms c f show "insert_calls (flush_at_threshold cw n s) = insert_calls s @ [results_batch s]"
    by (cases r) (simp_all add: flush_at_threshold_def demote_batch_def)
  from assms c f show "content (flush_at_threshold cw n s) =
       (if insert_ok cw then content s @ results_batch s else content s)"
    by (cases r) (simp_all add: flush_at_threshold_def demote_batch_def)
  from assms c f show "success_count (flush_at_threshold cw n s) + error_count (flush_at_threshold cw n s) =
       success_count s + error_count s"
    by (cases r) (simp_all add: flush_at_threshold_def demote_batch_def)
qed

lemma flush_at_threshold_counts:
  "processed_count (flush_at_threshold cw n s) = processed_count s \<and>
   success_count (flush_at_threshold cw n s) + error_count (flush_at_threshold cw n s) =
     success_count s + error_count s"
  by (cases "length (results_batch s) \<ge> BATCH_SIZE")
     (simp_all add: flush_at_threshold_fields flush_at_threshold_below)

lemma flush_remaining_counts:
  "processed_count (flush_remaining cw n s) = processed_count s \<and>
   success_count (flush_remaining cw n s) + error_count (flush_remaining cw n s) =
     success_count s + error_count s"
proof -
  obtain r s' where c: "commit_batch True cw n s = (r, s')"
    by (cases "commit_batch True cw n s")
  note f = commit_batch_fields[OF c]
  from c f show ?thesis
    by (cases r) (simp_all add: flush_remaining_def demote_batch_def)
qed

text \<open>
  C4: when the bulk write raises, the flush at the threshold and the flush of the remainder
  both add the size of the batch to the failure counter and take it from the success
  counter; the collection is left as it was and the batch has been handed to
  \<open>insert_many\<close> exactly once. The flush in the loop then empties the batch; after the flush
  of the remainder the run is over.
\<close>

theorem failed_write_demotes_batch:
  assumes "\<not> insert_ok cw"
  shows "(length (results_batch s) \<ge> BATCH_SIZE \<longrightarrow>
            error_count (flush_at_threshold cw n s) =
              error_count s + int (length (results_batch s)) \<and>
            success_count (flush_at_threshold cw n s) =
              success_count s - int (length (results_batch s)) \<and>
            results_batch (flush_at_threshold cw n s) = [] \<and>
            content (flush_at_threshold cw n s) = content s \<and>
            insert_calls (flush_at_threshold cw n s) = insert_calls s @ [results_batch s]) \<and>
         (results_batch s \<noteq> [] \<longrightarrow>
            error_count (flush_remaining cw n s) =
              error_count s + int (length (results_batch s)) \<and>
            success_count (flush_remaining cw n s) =
              success_count s - int (length (results_batch s)) \<and>
            content (flush_remaining cw n s) = content s \<and>
            insert_calls (flush_remaining cw n s) = insert_calls s @ [results_batch s])"
proof -
  from commit_batch_fails[OF assms] obtain s1 s2 where
    c: "commit_batch False cw n s = (Some PyMongoError, s1)"
       "commit_batch True cw n s = (Some PyMongoError, s2)"
    by blast
  note f1 = commit_batch_fields[OF c(1)] and f2 = commit_batch_fields[OF c(2)]
  show ?thesis
    using assms c f1 f2
    by (simp add: flush_at_threshold_def flush_remaining_def demote_batch_def)
qed

lemma fold_result_processed:
  "processed_count (fold_result fs a s) = processed_count s + 1"
proof (cases "progress_report (a_world a) fs (processed_count s + 1)
                (total_processing_time s + a_duration a) (a_duration a) (a_timings a)")
  case (Inl e)
  then show ?thesis by (simp add: fold_result_def Let_def)
next
  case (Inr line)
  then show ?thesis
    by (simp add: fold_result_def Let_def flush_at_threshold_counts)
qed

lemma fold_result_invariant:
  assumes "stdout_open (a_world a)"
    and "processed_count s = success_count s + error_count s"
  shows "processed_count (fold_result fs a s) =
           success_count (fold_result fs a s) + error_count (fold_result fs a s)"
proof (cases "progress_report (a_world a) fs (processed_count s + 1)
                (total_processing_time s + a_duration a) (a_duration a) (a_timings a)")
  case (Inl e)
  with progress_report_BrokenPipe assms(1) have "e \<noteq> BrokenPipeError" by blast
  with Inl assms(2) show ?thesis by (simp add: fold_result_def Let_def)
next
  case (Inr line)
  show ?thesis
  proof (cases "truthy (a_result a)")
    case True
    with Inr assms(2) show ?thesis
      by (simp add: fold_result_def Let_def flush_at_threshold_counts)
  next
    case False
    with Inr assms(2) show ?thesis
      by (simp add: fold_result_def Let_def)
  qed
qed

lemma consume_invariant:
  assumes "\<forall>a. Arrival a \<in> set evs \<longrightarrow> stdout_open (a_world a)"
    and "processed_count s = success_count s + error_count s"
  shows "processed_count (snd (consume fs evs s)) =
           success_count (snd (consume fs evs s)) + error_count (snd (consume fs evs s))"
  using assms
proof (induction fs evs s rule: consume.induct)
  case (1 fs s)
  then show ?case by simp
next
  case (2 fs a evs s)
  from 2 show ?case by (simp add: fold_result_invariant)
next
  case (3 fs sg evs s)
  then show ?case by simp
qed

lemma fold_result_batching:
  assumes "length (results_batch s) < BATCH_SIZE"
  shows "reported fs (processed_count s + 1) (a_world a) \<and> truthy (a_result a) \<Longrightarrow>
           Suc (length (results_batch s)) = BATCH_SIZE \<Longrightarrow>
           results_batch (fold_result fs a s) = [] \<and>
           insert_calls (fold_result fs a s) =
             insert_calls s @ [results_batch s @ [the (a_result a)]]"
    and "reported fs (processed_count s + 1) (a_world a) \<and> truthy (a_result a) \<Longrightarrow>
           Suc (length (results_batch s)) < BATCH_SIZE \<Longrightarrow>
           results_batch (fold_result fs a s) = results_batch s @ [the (a_result a)] \<and>
           insert_calls (fold_result fs a s) = insert_calls s"
    and "\<not> (reported fs (processed_count s + 1) (a_world a) \<and> truthy (a_result a)) \<Longrightarrow>
           results_batch (fold_result fs a s) = results_batch s \<and>
           insert_calls (fold_result fs a s) = insert_calls s"
proof -
  let ?pr = "progress_report (a_world a) fs (processed_count s + 1)
                (total_processing_time s + a_duration a) (a_duration a) (a_timings a)"
  {
    assume r: "reported fs (processed_count s + 1) (a_world a) \<and> truthy (a_result a)"
    then obtain line where l: "?pr = Inr line" using progress_report_reported by blast
    {
      assume "Suc (length (results_batch s)) = BATCH_SIZE"
      with r l show "results_batch (fold_result fs a s) = [] \<and>
           insert_calls (fold_result fs a s) =
             insert_calls s @ [results_batch s @ [the (a_result a)]]"
        by (simp add: fold_result_def Let_def flush_at_threshold_fields)
    }
    {
      assume "Suc (length (results_batch s)) < BATCH_SIZE"
      with r l show "results_batch (fold_result fs a s) = results_batch s @ [the (a_result a)] \<and>
           insert_calls (fold_result fs a s) = insert_calls s"
        by (simp add: fold_result_def Let_def flush_at_threshold_below)
    }
  }
  {
    assume n: "\<not> (reported fs (processed_count s + 1) (a_world a) \<and> truthy (a_result a))"
    show "results_batch (fold_result fs a s) = results_batch s \<and>
           insert_calls (fold_result fs a s) = insert_calls s"
    proof (cases "reported fs (processed_count s + 1) (a_world a)")
      case True
      then obtain line where l: "?pr = Inr line" using progress_report_reported by blast
      from True n have "\<not> truthy (a_result a)" by simp
      with l show ?thesis by (simp add: fold_result_def Let_def)
    next
      case False
      then obtain e where l: "?pr = Inl e" using progress_report_not_reported by blast
      then show ?thesis by (simp add: fold_result_def Let_def)
    qed
  }
qed

lemma consume_arrivals_None: "fst (consume fs (map Arrival as) s) = None"
  by (induction as arbitrary: s) simp_all

lemma consume_signal:
  "consume fs (map Arrival as @ Signal sg # post) s =
     (Some (signal_handler sg), snd (consume fs (map Arrival as) s))"
  by (induction as arbitrary: s) simp_all

lemma consume_batching:
  assumes "length (results_batch s) < BATCH_SIZE"
  shows "\<exists>new. insert_calls (snd (consume fs (map Arrival as) s)) = insert_calls s @ new \<and>
           length new = (length (results_batch s) + length (appended fs (processed_count s) as)) div BATCH_SIZE \<and>
           (\<forall>b \<in> set new. length b = BATCH_SIZE) \<and>
           length (results_batch (snd (consume fs (map Arrival as) s))) =
             (length (results_batch s) + length (appended fs (processed_count s) as)) mod BATCH_SIZE \<and>
           concat new @ results_batch (snd (consume fs (map Arrival as) s)) =
             results_batch s @ appended fs (processed_count s) as"
  using assms
proof (induction as arbitrary: s)
  case Nil
  then show ?case by simp
next
  case (Cons a as)
  let ?s1 = "fold_result fs a s"
  let ?m = "length (appended fs (processed_count s + 1) as)"
  have pc: "processed_count ?s1 = processed_count s + 1" by (rule fold_result_processed)
  note fb = fold_result_batching[OF Cons.prems, of fs a]
  consider (full) "reported fs (processed_count s + 1) (a_world a) \<and> truthy (a_result a)"
                  "Suc (length (results_batch s)) = BATCH_SIZE"
    | (part) "reported fs (processed_count s + 1) (a_world a) \<and> truthy (a_result a)"
                  "Suc (length (results_batch s)) < BATCH_SIZE"
    | (none) "\<not> (reported fs (processed_count s + 1) (a_world a) \<and> truthy (a_result a))"
    using Cons.prems by linarith
  then show ?case
  proof cases
    case full
    from fb(1)[OF full] have s1: "results_batch ?s1 = []"
      "insert_calls ?s1 = insert_calls s @ [results_batch s @ [the (a_result a)]]" by simp_all
    then have "length (results_batch ?s1) < BATCH_SIZE" by (simp add: BATCH_SIZE_def)
    from Cons.IH[OF this] obtain new where
      n: "insert_calls (snd (consume fs (map Arrival as) ?s1)) = insert_calls ?s1 @ new"
         "length new = ?m div BATCH_SIZE" "\<forall>b \<in> set new. length b = BATCH_SIZE"
         "length (results_batch (snd (consume fs (map Arrival as) ?s1))) = ?m mod BATCH_SIZE"
         "concat new @ results_batch (snd (consume fs (map Arrival as) ?s1)) = appended fs (processed_count s + 1) as"
      using s1 pc by auto
    let ?new = "(results_batch s @ [the (a_result a)]) # new"
    have "insert_calls (snd (consume fs (map Arrival (a # as)) s)) = insert_calls s @ ?new"
      using n(1) s1 by simp
    moreover have "length ?new = (length (results_batch s) + length (appended fs (processed_count s) (a # as))) div BATCH_SIZE"
      using n(2) full by (simp add: BATCH_SIZE_def)
    moreover have "\<forall>b \<in> set ?new. length b = BATCH_SIZE"
      using n(3) full by simp
    moreover have "length (results_batch (snd (consume fs (map Arrival (a # as)) s))) =
             (length (results_batch s) + length (appended fs (processed_count s) (a # as))) mod BATCH_SIZE"
      using n(4) full by (simp add: BATCH_SIZE_def)
    moreover have "concat ?new @ results_batch (snd (consume fs (map Arrival (a # as)) s)) =
             results_batch s @ appended fs (processed_count s) (a # as)"
      using n(5) full by simp
    ultimately show ?thesis by blast
  next
    case part
    from fb(2)[OF part] have s1: "results_batch ?s1 = results_batch s @ [the (a_result a)]"
      "insert_calls ?s1 = insert_calls s" by simp_all
    with part have "length (results_batch ?s1) < BATCH_SIZE" by simp
    from Cons.IH[OF this] obtain new where
      n: "insert_calls (snd (consume fs (map Arrival as) ?s1)) = insert_calls ?s1 @ new"
         "length new = (Suc (length (results_batch s)) + ?m) div BATCH_SIZE" "\<forall>b \<in> set new. length b = BATCH_SIZE"
         "length (results_batch (snd (consume fs (map Arrival as) ?s1))) = (Suc (length (results_batch s)) + ?m) mod BATCH_SIZE"
         "concat new @ results_batch (snd (consume fs (map Arrival as) ?s1)) = results_batch s @ [the (a_result a)] @ appended fs (processed_count s + 1) as"
      using s1 pc by auto
    show ?thesis
      apply (rule exI[of _ new])
      using n s1 part by simp
  next
    case none
    from fb(3)[OF none] have s1: "results_batch ?s1 = results_batch s"
      "insert_calls ?s1 = insert_calls s" by simp_all
    with Cons.prems have "length (results_batch ?s1) < BATCH_SIZE" by simp
    from Cons.IH[OF this] obtain new where
      n: "insert_calls (snd (consume fs (map Arrival as) ?s1)) = insert_calls ?s1 @ new"
         "length new = (length (results_batch s) + ?m) div BATCH_SIZE" "\<forall>b \<in> set new. length b = BATCH_SIZE"
         "length (results_batch (snd (consume fs (map Arrival as) ?s1))) = (length (results_batch s) + ?m) mod BATCH_SIZE"
         "concat new @ results_batch (snd (consume fs (map Arrival as) ?s1)) = results_batch s @ appended fs (processed_count s + 1) as"
      using s1 pc by auto
    show ?thesis
      apply (rule exI[of _ new])
      using n s1 none by auto
  qed
qed

lemma fold_result_content:
  "set (content (fold_result fs a s)) \<union> set (concat (insert_calls (fold_result fs a s)))
     \<subseteq> set (content s) \<union> set (concat (insert_calls (fold_result fs a s))) \<and>
   set (concat (insert_calls s)) \<subseteq> set (concat (insert_calls (fold_result fs a s)))"
proof (cases "progress_report (a_world a) fs (processed_count s + 1)
                (total_processing_time s + a_duration a) (a_duration a) (a_timings a)")
  case (Inl e)
  then show ?thesis by (simp add: fold_result_def Let_def)
next
  case (Inr line)
  show ?thesis
  proof (cases "truthy (a_result a)")
    case False
    with Inr show ?thesis by (simp add: fold_result_def Let_def)
  next
    case True
    let ?s3 = "s\<lparr>processed_count := processed_count s + 1,
                 total_processing_time := total_processing_time s + a_duration a,
                 console := console s @ [line],
                 results_batch := results_batch s @ [the (a_result a)],
                 success_count := success_count s + 1\<rparr>"
    have f: "fold_result fs a s = flush_at_threshold (a_world a) (int (length fs)) ?s3"
      using Inr True by (simp add: fold_result_def Let_def)
    show ?thesis
    proof (cases "length (results_batch ?s3) \<ge> BATCH_SIZE")
      case True
      from flush_at_threshold_fields(3,4)[OF True, of "a_world a" "int (length fs)"] f
      show ?thesis by auto
    next
      case False
      then have "flush_at_threshold (a_world a) (int (length fs)) ?s3 = ?s3"
        by (simp add: flush_at_threshold_def)
      with f show ?thesis by simp
    qed
  qed
qed

lemma consume_content:
  assumes "set (content s) \<subseteq> A \<union> set (concat (insert_calls s))"
  shows "set (content (snd (consume fs evs s))) \<subseteq> A \<union> set (concat (insert_calls (snd (consume fs evs s))))"
  using assms
proof (induction fs evs s rule: consume.induct)
  case (1 fs s)
  then show ?case by simp
next
  case (2 fs a evs s)
  have "set (content (fold_result fs a s)) \<subseteq> A \<union> set (concat (insert_calls (fold_result fs a s)))"
    using fold_result_content[of fs a s] "2.prems" by blast
  from "2.IH"[OF this] show ?case by simp
next
  case (3 fs sg evs s)
  then show ?case by simp
qed

lemma fold_result_falsy:
  assumes "\<not> truthy (a_result a)" and "stdout_open (a_world a)"
  shows "error_count (fold_result fs a s) = error_count s + 1 \<and>
         success_count (fold_result fs a s) = success_count s \<and>
         results_batch (fold_result fs a s) = results_batch s \<and>
         content (fold_result fs a s) = content s \<and>
         insert_calls (fold_result fs a s) = insert_calls s"
proof (cases "progress_report (a_world a) fs (processed_count s + 1)
                (total_processing_time s + a_duration a) (a_duration a) (a_timings a)")
  case (Inl e)
  with progress_report_BrokenPipe assms(2) have "e \<noteq> BrokenPipeError" by blast
  with Inl show ?thesis by (simp add: fold_result_def Let_def)
next
  case (Inr line)
  with assms(1) show ?thesis by (simp add: fold_result_def Let_def)
qed

text \<open>
  C1, as the code has it: a file that is hidden or has no content type gives no document
  (\<open>None\<close>, duration 0, no timings). Folding that result, with standard output open, adds
  one to the failure counter and leaves the success counter, the batch and the store as
  they were: a skip is counted like a failure. Hidden names do not get that far in a run:
  with names free of slashes, no entry of the backlog has a last component that begins
  with a dot, so the hidden-file test of \<open>process_file\<close> fires for none of them.
\<close>

theorem skipped_files_fold_as_errors:
  assumes "startswith (basename fp) ''.'' \<or> guess_type w fp = Inr None \<or>
           guess_type w fp = Inr (Some [])"
    and "process_file w fp = Inr (a_result a, a_duration a, a_timings a)"
    and "stdout_open (a_world a)"
    and "slash_free tree"
  shows "a_result a = None \<and> a_duration a = 0 \<and> a_timings a = [] \<and>
         error_count (fold_result fs a s) = error_count s + 1 \<and>
         success_count (fold_result fs a s) = success_count s \<and>
         results_batch (fold_result fs a s) = results_batch s \<and>
         content (fold_result fs a s) = content s \<and>
         insert_calls (fold_result fs a s) = insert_calls s \<and>
         (\<forall>e \<in> set (gather_files r tree). \<not> startswith (basename e) ''.'')"
proof -
  from process_file_skips[OF assms(1)] assms(2)
  have n: "a_result a = None" "a_duration a = 0" "a_timings a = []" by simp_all
  then have "\<not> truthy (a_result a)" by (simp add: truthy_def)
  from fold_result_falsy[OF this assms(3)] n gather_files_basenames[OF assms(4)]
  show ?thesis by blast
qed

text \<open>
  C9: as long as standard output takes every line, the processed count is the sum of the
  success and failure counts after any number of events, whatever the results, the sizes
  read and the outcomes of the bulk writes are; the flush of the remainder keeps it so.
\<close>

theorem processed_is_success_plus_error:
  assumes "\<forall>a. Arrival a \<in> set evs \<longrightarrow> stdout_open (a_world a)"
  shows "processed_count (snd (consume fs evs (initial_state store))) =
           success_count (snd (consume fs evs (initial_state store))) +
           error_count (snd (consume fs evs (initial_state store))) \<and>
         processed_count (flush_remaining fw n (snd (consume fs evs (initial_state store)))) =
           success_count (flush_remaining fw n (snd (consume fs evs (initial_state store)))) +
           error_count (flush_remaining fw n (snd (consume fs evs (initial_state store))))"
proof -
  have "processed_count (initial_state store) =
          success_count (initial_state store) + error_count (initial_state store)"
    by (simp add: initial_state_def)
  from consume_invariant[OF assms this] flush_remaining_counts show ?thesis by simp
qed

lemma main_orderly:
  "final (main True trunc True r tree store (map Arrival as) fw cl) =
     flush_remaining fw (int (length (gather_files r tree)))
       (snd (consume (gather_files r tree) (map Arrival as)
               (initial_state (if trunc then [] else store))))"
  using consume_arrivals_None[of "gather_files r tree" as "initial_state (if trunc then [] else store)"]
  by (cases "consume (gather_files r tree) (map Arrival as) (initial_state (if trunc then [] else store))")
     (simp add: main_def Let_def)

lemma main_interrupted:
  "main True trunc True r tree store (map Arrival as @ Signal sg # post) fw cl =
     \<lparr>exit_status = 0,
      final = snd (consume (gather_files r tree) (map Arrival as)
                     (initial_state (if trunc then [] else store)))\<rparr>"
  by (simp add: main_def Let_def consume_signal signal_handler_def)

text \<open>
  The status of a run that no signal ends: 1 when the root is not a directory or the
  truncation raises, and otherwise what the closing statistics give: 0 when they go
  through, 1 when the division by the elapsed time or \<open>count_documents\<close> raises.
\<close>

lemma main_exit_status:
  "exit_status (main isdir trunc delete_ok r tree store (map Arrival as) fw cl) =
     (if \<not> isdir \<or> (trunc \<and> \<not> delete_ok) then 1
      else if total_duration cl = 0 \<or> \<not> count_documents_ok cl then 1
      else 0)"
  using consume_arrivals_None[of "gather_files r tree" as "initial_state (if trunc then [] else store)"]
  by (cases "consume (gather_files r tree) (map Arrival as) (initial_state (if trunc then [] else store))")
     (auto simp: main_def Let_def closing_status_def truediv_def)

lemma flush_remaining_calls:
  "insert_calls (flush_remaining cw n s) =
     insert_calls s @ (if results_batch s = [] then [] else [results_batch s])"
proof -
  obtain r s' where c: "commit_batch True cw n s = (r, s')"
    by (cases "commit_batch True cw n s")
  note f = commit_batch_fields[OF c]
  from c f show ?thesis
    by (cases r) (simp_all add: flush_remaining_def demote_batch_def)
qed


lemma initial_batching:
  "\<exists>calls. insert_calls (snd (consume fs (map Arrival as) (initial_state st))) = calls \<and>
      length calls = length (appended fs 0 as) div BATCH_SIZE \<and>
      (\<forall>b \<in> set calls. length b = BATCH_SIZE) \<and>
      length (results_batch (snd (consume fs (map Arrival as) (initial_state st)))) =
        length (appended fs 0 as) mod BATCH_SIZE \<and>
      concat calls @ results_batch (snd (consume fs (map Arrival as) (initial_state st))) =
        appended fs 0 as"
proof -
  have "length (results_batch (initial_state st)) < BATCH_SIZE"
    by (simp add: initial_state_def BATCH_SIZE_def)
  from consume_batching[OF this, of fs as] show ?thesis
    by (simp add: initial_state_def)
qed

text \<open>
  C5: in a run without signals, with \<open>n\<close> documents appended to the batch, the loop calls
  \<open>insert_many\<close> \<open>n div 20\<close> times, each time with exactly 20 documents; after the loop
  one more call writes the remaining \<open>n mod 20\<close> documents if there are any, and none is
  made otherwise. Together the calls hand over every appended document once, in order.
\<close>

theorem flush_once_per_batch:
  "\<exists>calls rest.
      insert_calls (snd (consume (gather_files r tree) (map Arrival as)
                           (initial_state (if trunc then [] else store)))) = calls \<and>
      insert_calls (final (main True trunc True r tree store (map Arrival as) fw cl)) =
        calls @ (if rest = [] then [] else [rest]) \<and>
      length calls = length (appended (gather_files r tree) 0 as) div BATCH_SIZE \<and>
      (\<forall>b \<in> set calls. length b = BATCH_SIZE) \<and>
      length rest = length (appended (gather_files r tree) 0 as) mod BATCH_SIZE \<and>
      concat calls @ rest = appended (gather_files r tree) 0 as"
proof -
  let ?fs = "gather_files r tree"
  let ?s = "snd (consume ?fs (map Arrival as) (initial_state (if trunc then [] else store)))"
  from initial_batching[of ?fs as "if trunc then [] else store"]
  have b: "length (insert_calls ?s) = length (appended ?fs 0 as) div BATCH_SIZE"
    "\<forall>b \<in> set (insert_calls ?s). length b = BATCH_SIZE"
    "length (results_batch ?s) = length (appended ?fs 0 as) mod BATCH_SIZE"
    "concat (insert_calls ?s) @ results_batch ?s = appended ?fs 0 as"
    by blast+
  have m: "insert_calls (final (main True trunc True r tree store (map Arrival as) fw cl)) =
        insert_calls ?s @ (if results_batch ?s = [] then [] else [results_batch ?s])"
    unfolding main_orderly by (rule flush_remaining_calls)
  from b m show ?thesis by blast
qed

text \<open>
  C3: a run in which a signal is delivered after the results \<open>as\<close> ends in the state the
  loop had reached: fewer than 20 documents are in the batch, none of them is in the
  collection (the documents being distinct and not stored before the run), and no write
  follows. The same results without the signal end with one more call of \<open>insert_many\<close>,
  on that batch, when it is not empty.
\<close>

theorem signal_skips_final_flush:
  assumes "distinct (appended (gather_files r tree) 0 as)"
    and "set (if trunc then [] else store) \<inter> set (appended (gather_files r tree) 0 as) = {}"
  shows "let s = snd (consume (gather_files r tree) (map Arrival as)
                        (initial_state (if trunc then [] else store)));
             interrupted =
               final (main True trunc True r tree store (map Arrival as @ Signal sg # post) fw cl)
         in interrupted = s \<and>
            length (results_batch s) < BATCH_SIZE \<and>
            set (results_batch s) \<inter> set (content interrupted) = {} \<and>
            insert_calls (final (main True trunc True r tree store (map Arrival as) fw cl)) =
              insert_calls s @ (if results_batch s = [] then [] else [results_batch s])"
proof -
  let ?fs = "gather_files r tree"
  let ?st = "if trunc then [] else store"
  let ?s = "snd (consume ?fs (map Arrival as) (initial_state ?st))"
  have i: "final (main True trunc True r tree store (map Arrival as @ Signal sg # post) fw cl) = ?s"
    by (simp add: main_interrupted)
  from initial_batching[of ?fs as ?st]
  have len: "length (results_batch ?s) = length (appended ?fs 0 as) mod BATCH_SIZE"
    and cc: "concat (insert_calls ?s) @ results_batch ?s = appended ?fs 0 as"
    by blast+
  from len have l: "length (results_batch ?s) < BATCH_SIZE" by (simp add: BATCH_SIZE_def)
  have "set (content (initial_state ?st)) \<subseteq> set ?st \<union> set (concat (insert_calls (initial_state ?st)))"
    by (simp add: initial_state_def)
  from consume_content[OF this]
  have sub: "set (content ?s) \<subseteq> set ?st \<union> set (concat (insert_calls ?s))" .
  have "distinct (concat (insert_calls ?s) @ results_batch ?s)"
    using assms(1) unfolding cc .
  then have d: "set (concat (insert_calls ?s)) \<inter> set (results_batch ?s) = {}"
    by simp
  have "set (results_batch ?s) \<subseteq> set (concat (insert_calls ?s) @ results_batch ?s)"
    by simp
  then have "set (results_batch ?s) \<subseteq> set (appended ?fs 0 as)"
    unfolding cc .
  with assms(2) have e: "set ?st \<inter> set (results_batch ?s) = {}" by blast
  from d e sub have n: "set (results_batch ?s) \<inter> set (content ?s) = {}" by blast
  have m: "insert_calls (final (main True trunc True r tree store (map Arrival as) fw cl)) =
        insert_calls ?s @ (if results_batch ?s = [] then [] else [results_batch ?s])"
    unfolding main_orderly by (rule flush_remaining_calls)
  show ?thesis
    unfolding Let_def i using l n m by blast
qed

lemma commit_batch_progress:
  assumes "commit_batch fin cw n s = (r, s')"
  shows "filter is_Progress (console s') = filter is_Progress (console s)"
  using assms
  by (auto simp: commit_batch_def Let_def split: if_splits sum.splits)

lemma flush_at_threshold_sizes:
  "reported_sizes (flush_at_threshold cw n s) = reported_sizes s"
proof -
  obtain r s' where c: "commit_batch False cw n s = (r, s')"
    by (cases "commit_batch False cw n s")
  from c commit_batch_progress[OF c] show ?thesis
    by (cases r) (simp_all add: flush_at_threshold_def demote_batch_def reported_sizes_def)
qed

lemma progress_report_size:
  assumes "0 \<le> k" and "nat k < length fs" and "getsize cw (fs ! nat k) \<noteq> None" and "stdout_open cw"
  shows "\<exists>line. progress_report cw fs (k + 1) tt d tm = Inr line \<and> is_Progress line \<and>
           p_file_size_mb line = size_shown cw (fs ! nat k)"
  using assms
  by (auto simp: progress_report_def py_index_def truediv_def size_shown_def Let_def)

lemma fold_result_sizes:
  assumes "0 \<le> processed_count s" and "nat (processed_count s) < length fs"
    and "getsize (a_world a) (fs ! nat (processed_count s)) \<noteq> None" and "stdout_open (a_world a)"
  shows "reported_sizes (fold_result fs a s) =
           reported_sizes s @ [size_shown (a_world a) (fs ! nat (processed_count s))]"
proof -
  from progress_report_size[OF assms, of "total_processing_time s + a_duration a" "a_duration a" "a_timings a"]
  obtain line where l: "progress_report (a_world a) fs (processed_count s + 1)
        (total_processing_time s + a_duration a) (a_duration a) (a_timings a) = Inr line"
     "is_Progress line" "p_file_size_mb line = size_shown (a_world a) (fs ! nat (processed_count s))"
    by blast
  show ?thesis
  proof (cases "truthy (a_result a)")
    case True
    with l show ?thesis
      by (simp add: fold_result_def Let_def flush_at_threshold_sizes)
         (simp add: reported_sizes_def)
  next
    case False
    with l show ?thesis
      by (simp add: fold_result_def Let_def reported_sizes_def)
  qed
qed

lemma consume_sizes:
  assumes "0 \<le> processed_count s" and "nat (processed_count s) + length as \<le> length fs"
    and "\<forall>i<length as. stdout_open (a_world (as ! i)) \<and>
            getsize (a_world (as ! i)) (fs ! (nat (processed_count s) + i)) \<noteq> None"
  shows "reported_sizes (snd (consume fs (map Arrival as) s)) =
           reported_sizes s @
           map (\<lambda>i. size_shown (a_world (as ! i)) (fs ! (nat (processed_count s) + i))) [0..<length as]"
  using assms
proof (induction as arbitrary: s)
  case Nil
  then show ?case by simp
next
  case (Cons a as)
  let ?s1 = "fold_result fs a s"
  have pc: "processed_count ?s1 = processed_count s + 1" by (rule fold_result_processed)
  from Cons.prems(3) have a0: "stdout_open (a_world a)"
    "getsize (a_world a) (fs ! nat (processed_count s)) \<noteq> None"
    by auto
  from Cons.prems(2) have lt: "nat (processed_count s) < length fs" by simp
  from fold_result_sizes[OF Cons.prems(1) lt a0(2) a0(1)]
  have s1: "reported_sizes ?s1 = reported_sizes s @ [size_shown (a_world a) (fs ! nat (processed_count s))]" .
  have n1: "nat (processed_count ?s1) = Suc (nat (processed_count s))"
    using pc Cons.prems(1) by simp
  have p1: "0 \<le> processed_count ?s1" using pc Cons.prems(1) by simp
  have p2: "nat (processed_count ?s1) + length as \<le> length fs"
    using n1 Cons.prems(2) by simp
  have p3: "\<forall>i<length as. stdout_open (a_world (as ! i)) \<and>
            getsize (a_world (as ! i)) (fs ! (nat (processed_count ?s1) + i)) \<noteq> None"
  proof (intro allI impI)
    fix i assume "i < length as"
    then have "Suc i < length (a # as)" by simp
    from Cons.prems(3)[rule_format, OF this] show "stdout_open (a_world (as ! i)) \<and>
            getsize (a_world (as ! i)) (fs ! (nat (processed_count ?s1) + i)) \<noteq> None"
      by (simp add: n1)
  qed
  from Cons.IH[OF p1 p2 p3] s1 show ?case
    by (simp add: n1 map_upt_Suc del: upt_Suc)
qed

text \<open>
  C7: when every progress line is printed, the line of the \<open>i\<close>-th result received shows
  the size of the \<open>i\<close>-th entry of the backlog, read at that moment; the file the result
  belongs to (\<open>a_path\<close>) plays no part. So when the results arrive in another order than
  the backlog has, some line shows the size of a file other than the one completed.
\<close>

theorem progress_size_by_position:
  assumes "length as = length fs"
    and "\<forall>i<length as. stdout_open (a_world (as ! i)) \<and>
            getsize (a_world (as ! i)) (fs ! i) \<noteq> None"
  shows "reported_sizes (snd (consume fs (map Arrival as) (initial_state store))) =
           map (\<lambda>i. size_shown (a_world (as ! i)) (fs ! i)) [0..<length as] \<and>
         (map a_path as \<noteq> fs \<longrightarrow>
            (\<exists>i<length as. a_path (as ! i) \<noteq> fs ! i \<and>
               reported_sizes (snd (consume fs (map Arrival as) (initial_state store))) ! i =
                 size_shown (a_world (as ! i)) (fs ! i)))"
proof -
  let ?s0 = "initial_state store"
  have z: "processed_count ?s0 = 0" "reported_sizes ?s0 = []"
    by (simp_all add: initial_state_def reported_sizes_def)
  have "reported_sizes (snd (consume fs (map Arrival as) ?s0)) =
           reported_sizes ?s0 @
           map (\<lambda>i. size_shown (a_world (as ! i)) (fs ! (nat (processed_count ?s0) + i))) [0..<length as]"
    by (rule consume_sizes) (use assms z in simp_all)
  then have eq: "reported_sizes (snd (consume fs (map Arrival as) ?s0)) =
           map (\<lambda>i. size_shown (a_world (as ! i)) (fs ! i)) [0..<length as]"
    using z by simp
  have "\<exists>i<length as. a_path (as ! i) \<noteq> fs ! i \<and>
          map (\<lambda>i. size_shown (a_world (as ! i)) (fs ! i)) [0..<length as] ! i =
            size_shown (a_world (as ! i)) (fs ! i)"
    if "map a_path as \<noteq> fs"
  proof -
    from that assms(1) obtain i where i: "i < length as" "a_path (as ! i) \<noteq> fs ! i"
      by (auto simp: list_eq_iff_nth_eq)
    from i(1) have "map (\<lambda>i. size_shown (a_world (as ! i)) (fs ! i)) [0..<length as] ! i =
            size_shown (a_world (as ! i)) (fs ! i)"
      by simp
    with i show ?thesis by blast
  qed
  with eq show ?thesis by simp
qed

lemmas example_simps = example_names_def example_tree_def photo_def photo_arrival_def
  skip_arrival_def quiet_def gather_files_def startswith_def path_join_def

lemmas run_simps = main_def initial_state_def fold_result_def progress_report_def py_index_def
  truediv_def truthy_def empty_doc_def flush_at_threshold_def flush_remaining_def
  commit_batch_def demote_batch_def BATCH_SIZE_def signal_handler_def Let_def

text \<open>
  C2: a run that receives either signal ends with status 0: the handler raises
  \<open>SystemExit(0)\<close>, which neither clause around the loop catches.
\<close>

theorem signal_exit_status_zero:
  "exit_status (main True False True ''/data'' example_tree [] [Signal SIGINT] quiet closing_fine) = 0 \<and>
   exit_status (main True False True ''/data'' example_tree []
                  [Arrival (photo_arrival ''/data/p01.jpg''), Signal SIGTERM] quiet closing_fine) = 0"
  by (simp add: main_def signal_handler_def Let_def split: prod.splits)

text \<open>
  C1, as stated, fails: a file of unknown type gives no document, and the run that folds
  its result ends with a failure count of one.
\<close>

theorem unknown_type_counted_as_failure:
  "process_file (probes_down None (Inl OSError)) ''/data/notes.xyz'' = Inr (None, 0, []) \<and>
   error_count (final (main True False True ''/data'' (Dir [''notes.xyz''] []) []
                         [Arrival (skip_arrival ''/data/notes.xyz'')] quiet closing_fine)) = 1"
  by (simp add: process_file_def process_file_body_def probes_down_def basename_def
        example_simps run_simps)

theorem skipped_files_fold_as_errors_witness:
  "guess_type (probes_down None (Inl OSError)) ''/data/notes.xyz'' = Inr None \<and>
   process_file (probes_down None (Inl OSError)) ''/data/notes.xyz'' =
     Inr (a_result (skip_arrival ''/data/notes.xyz''), a_duration (skip_arrival ''/data/notes.xyz''),
          a_timings (skip_arrival ''/data/notes.xyz'')) \<and>
   stdout_open (a_world (skip_arrival ''/data/notes.xyz'')) \<and>
   slash_free example_tree \<and>
   error_count (fold_result [''/data/notes.xyz''] (skip_arrival ''/data/notes.xyz'')
                  (initial_state [])) = 1 \<and>
   success_count (fold_result [''/data/notes.xyz''] (skip_arrival ''/data/notes.xyz'')
                  (initial_state [])) = 0 \<and>
   ''/data/.DS_Store'' \<notin> set (gather_files ''/data'' example_tree)"
  using skipped_files_fold_as_errors
          [where fp = "''/data/notes.xyz''" and w = "probes_down None (Inl OSError)"
             and a = "skip_arrival ''/data/notes.xyz''" and fs = "[''/data/notes.xyz'']"
             and s = "initial_state []" and r = "''/data''" and tree = example_tree]
  by (simp add: process_file_def process_file_body_def probes_down_def basename_def
        skip_arrival_def quiet_def initial_state_def startswith_def
        gather_files_def example_tree_def example_names_def path_join_def)

theorem failed_write_demotes_batch_witness:
  "\<not> insert_ok (quiet\<lparr>insert_ok := False\<rparr>) \<and>
   BATCH_SIZE \<le> length (results_batch full_batch) \<and> results_batch full_batch \<noteq> [] \<and>
   error_count (flush_at_threshold (quiet\<lparr>insert_ok := False\<rparr>) 22 full_batch) = 20 \<and>
   success_count (flush_at_threshold (quiet\<lparr>insert_ok := False\<rparr>) 22 full_batch) = 0 \<and>
   results_batch (flush_at_threshold (quiet\<lparr>insert_ok := False\<rparr>) 22 full_batch) = [] \<and>
   content (flush_at_threshold (quiet\<lparr>insert_ok := False\<rparr>) 22 full_batch) = [] \<and>
   error_count (flush_remaining (quiet\<lparr>insert_ok := False\<rparr>) 22 full_batch) = 20 \<and>
   success_count (flush_remaining (quiet\<lparr>insert_ok := False\<rparr>) 22 full_batch) = 0 \<and>
   content (flush_remaining (quiet\<lparr>insert_ok := False\<rparr>) 22 full_batch) = []"
  using failed_write_demotes_batch [of "quiet\<lparr>insert_ok := False\<rparr>" full_batch 22]
  by (simp add: full_batch_def initial_state_def quiet_def BATCH_SIZE_def example_names_def)

theorem processed_is_success_plus_error_witness:
  "stdout_open (a_world (skip_arrival ''/data/notes.xyz'')) \<and>
   stdout_open (a_world (photo_arrival ''/data/p01.jpg'')) \<and>
   processed_count (snd (consume (gather_files ''/data'' example_tree)
      [Arrival (skip_arrival ''/data/notes.xyz''), Arrival (photo_arrival ''/data/p01.jpg'')]
      (initial_state []))) = 2 \<and>
   success_count (snd (consume (gather_files ''/data'' example_tree)
      [Arrival (skip_arrival ''/data/notes.xyz''), Arrival (photo_arrival ''/data/p01.jpg'')]
      (initial_state []))) = 1 \<and>
   error_count (snd (consume (gather_files ''/data'' example_tree)
      [Arrival (skip_arrival ''/data/notes.xyz''), Arrival (photo_arrival ''/data/p01.jpg'')]
      (initial_state []))) = 1"
  using processed_is_success_plus_error
          [of "[Arrival (skip_arrival ''/data/notes.xyz''), Arrival (photo_arrival ''/data/p01.jpg'')]"
              "gather_files ''/data'' example_tree" "[]" quiet 22]
  by (simp add: example_simps run_simps)

lemma example_backlog:
  "gather_files ''/data'' example_tree =
     map (path_join ''/data'') example_names @ [''/data/notes.xyz'']"
  by (simp add: gather_files_def example_tree_def example_names_def startswith_def path_join_def)

lemma appended_photos_then_skip:
  "appended (gather_files ''/data'' example_tree) 0 photos_then_skip =
     map (\<lambda>n. photo (path_join ''/data'' n)) example_names"
  unfolding example_backlog
  by (simp add: photos_then_skip_def example_names_def path_join_def startswith_def
        reported_def py_index_def quiet_def photo_arrival_def skip_arrival_def truthy_def
        photo_def empty_doc_def)

lemma appended_fifteen_photos:
  "appended (gather_files ''/data'' example_tree) 0 fifteen_photos =
     map (\<lambda>n. photo (path_join ''/data'' n)) (take 15 example_names)"
  unfolding example_backlog
  by (simp add: fifteen_photos_def example_names_def path_join_def startswith_def
        reported_def py_index_def quiet_def photo_arrival_def truthy_def
        photo_def empty_doc_def)

theorem signal_skips_final_flush_witness:
  "distinct (appended (gather_files ''/data'' example_tree) 0 fifteen_photos) \<and>
   set (if False then [] else []) \<inter>
     set (appended (gather_files ''/data'' example_tree) 0 fifteen_photos) = {} \<and>
   length (results_batch (final (main True False True ''/data'' example_tree []
             (map Arrival fifteen_photos @ Signal SIGINT # []) quiet closing_fine))) = 15 \<and>
   content (final (main True False True ''/data'' example_tree []
             (map Arrival fifteen_photos @ Signal SIGINT # []) quiet closing_fine)) = [] \<and>
   insert_calls (final (main True False True ''/data'' example_tree []
             (map Arrival fifteen_photos @ Signal SIGINT # []) quiet closing_fine)) = [] \<and>
   length (insert_calls (final (main True False True ''/data'' example_tree []
             (map Arrival fifteen_photos) quiet closing_fine))) = 1"
proof -
  let ?fs = "gather_files ''/data'' example_tree"
  let ?s = "snd (consume ?fs (map Arrival fifteen_photos) (initial_state (if False then [] else [])))"
  let ?i = "final (main True False True ''/data'' example_tree []
             (map Arrival fifteen_photos @ Signal SIGINT # []) quiet closing_fine)"
  have h1: "distinct (appended ?fs 0 fifteen_photos)"
    unfolding appended_fifteen_photos
    by (simp add: example_names_def photo_def path_join_def startswith_def)
  have h2: "set (if False then [] else []) \<inter> set (appended ?fs 0 fifteen_photos) = {}"
    by simp
  have n: "length (appended ?fs 0 fifteen_photos) = 15"
    unfolding appended_fifteen_photos by (simp add: example_names_def)
  from signal_skips_final_flush [OF h1 h2, of SIGINT "[]" quiet closing_fine]
  have t: "?i = ?s"
    "insert_calls (final (main True False True ''/data'' example_tree []
             (map Arrival fifteen_photos) quiet closing_fine)) =
       insert_calls ?s @ (if results_batch ?s = [] then [] else [results_batch ?s])"
    unfolding Let_def by blast+
  from initial_batching [of ?fs fifteen_photos "if False then [] else []"]
  have b: "length (insert_calls ?s) = 15 div BATCH_SIZE"
    "length (results_batch ?s) = 15 mod BATCH_SIZE"
    unfolding n by blast+
  from b have l: "insert_calls ?s = []" "length (results_batch ?s) = 15"
    by (simp_all add: BATCH_SIZE_def)
  have "set (content (initial_state (if False then [] else []))) \<subseteq>
          {} \<union> set (concat (insert_calls (initial_state (if False then [] else []))))"
    by (simp add: initial_state_def)
  from consume_content [OF this, of ?fs "map Arrival fifteen_photos"] l(1)
  have c: "content ?s = []" by simp
  from l(2) have ne: "results_batch ?s \<noteq> []" by auto
  show ?thesis
    unfolding t using h1 h2 l c ne by simp
qed

theorem flush_once_per_batch_witness:
  "map length (insert_calls (final (main True False True ''/data'' example_tree []
                                      (map Arrival photos_then_skip) quiet closing_fine))) = [20, 1]"
proof -
  have n: "length (appended (gather_files ''/data'' example_tree) 0 photos_then_skip) = 21"
    unfolding appended_photos_then_skip by (simp add: example_names_def)
  from flush_once_per_batch
         [of "''/data''" example_tree photos_then_skip False "[]" quiet closing_fine]
  obtain calls rest where
    c1: "insert_calls (final (main True False True ''/data'' example_tree []
                                      (map Arrival photos_then_skip) quiet closing_fine)) =
          calls @ (if rest = [] then [] else [rest])"
    and c2: "length calls = 21 div BATCH_SIZE"
    and c3: "\<forall>b \<in> set calls. length b = BATCH_SIZE"
    and c4: "length rest = 21 mod BATCH_SIZE"
    unfolding n by blast
  from c2 have "length calls = 1" by (simp add: BATCH_SIZE_def)
  then obtain b where b: "calls = [b]" by (cases calls) auto
  with c3 have lb: "length b = 20" by (simp add: BATCH_SIZE_def)
  from c4 have lr: "length rest = 1" by (simp add: BATCH_SIZE_def)
  then have "rest \<noteq> []" by auto
  with c1 b lb lr show ?thesis by simp
qed

theorem progress_size_by_position_witness:
  "length b_then_a = length [''/data/a.jpg'', ''/data/b.jpg''] \<and>
   stdout_open (a_world (b_then_a ! 0)) \<and>
   getsize (a_world (b_then_a ! 0)) ([''/data/a.jpg'', ''/data/b.jpg''] ! 0) = Some 1048576 \<and>
   stdout_open (a_world (b_then_a ! 1)) \<and>
   getsize (a_world (b_then_a ! 1)) ([''/data/a.jpg'', ''/data/b.jpg''] ! 1) = Some 2097152 \<and>
   map a_path b_then_a \<noteq> [''/data/a.jpg'', ''/data/b.jpg''] \<and>
   reported_sizes (snd (consume [''/data/a.jpg'', ''/data/b.jpg''] (map Arrival b_then_a)
                          (initial_state []))) = [1, 2]"
proof -
  have h: "\<forall>i<length b_then_a. stdout_open (a_world (b_then_a ! i)) \<and>
        getsize (a_world (b_then_a ! i)) ([''/data/a.jpg'', ''/data/b.jpg''] ! i) \<noteq> None"
    by (simp add: b_then_a_def two_sizes_def quiet_def less_Suc_eq)
  have l: "length b_then_a = length [''/data/a.jpg'', ''/data/b.jpg'']"
    by (simp add: b_then_a_def)
  from progress_size_by_position [OF l h, of "[]"]
  have "reported_sizes (snd (consume [''/data/a.jpg'', ''/data/b.jpg''] (map Arrival b_then_a)
                          (initial_state []))) =
        map (\<lambda>i. size_shown (a_world (b_then_a ! i)) ([''/data/a.jpg'', ''/data/b.jpg''] ! i))
          [0..<length b_then_a]"
    by blast
  also have "\<dots> = [1, 2]"
    by (simp add: b_then_a_def two_sizes_def quiet_def size_shown_def upt_rec)
  finally show ?thesis using l by (simp add: b_then_a_def two_sizes_def quiet_def)
qed

end
